theory Spec2Isabelle
  imports Main "HOL-Library.Word"
begin

section \<open>Memory model shared by both payload shapes\<close>

text \<open>
  The development embeds \<^verbatim>\<open>include/stl/arc.hpp\<close>: the atomically reference-counted
  strong handle \<^verbatim>\<open>arc<T>\<close>, the weak handle \<^verbatim>\<open>weak_arc<T>\<close>, their array
  specialisations, and the two private control blocks.

  Every member function is embedded as one function on an explicit program state and is
  executed as one indivisible step: the embedding is the single-threaded semantics of the
  header. Addresses are natural numbers handed out by an allocation counter, so an address
  is never reused and every allocation keeps its identity in the event trace. Handle objects
  (the C++ variables of type \<^verbatim>\<open>arc\<close> and \<^verbatim>\<open>weak_arc\<close>) are named by natural
  numbers; the value stored for a handle is its \<^verbatim>\<open>_block\<close> pointer, \<open>None\<close> being
  \<^verbatim>\<open>nullptr\<close>. The counters are \<^verbatim>\<open>std::atomic<std::size_t>\<close>, 64-bit words whose
  \<^verbatim>\<open>fetch_add\<close> and \<^verbatim>\<open>fetch_sub\<close> wrap around.
\<close>

type_synonym addr = nat
type_synonym var = nat
type_synonym size_t = "64 word"

text \<open>
  \<open>Dangling\<close>: a member of a control block (or a buffer) is accessed after its
  deallocation, which is undefined behaviour in the source.
  \<open>NotAnObject\<close>: the operation names a handle object that does not exist, or constructs
  one where a handle object already lives; such a sequence is not a C++ program.
\<close>

datatype fault = Dangling | NotAnObject

text \<open>
  The observable destruction events, in the order in which they happen:
  the destructor of the inline payload of a block, the deallocation of a control block,
  and \<^verbatim>\<open>delete[]\<close> of an array buffer.
\<close>

datatype event = ObjectDestroyed addr | BlockFreed addr | BufferFreed addr

text \<open>The result of \<^verbatim>\<open>get()\<close> of the single-object variant: \<^verbatim>\<open>&_block->_object\<close>.\<close>

datatype objptr = nullptr | ObjectOf addr

section \<open>Single-object variant\<close>

subsection \<open>Control block\<close>

record 'a control_block =
  cb_ref_count :: size_t
  cb_weak_count :: size_t
  cb_object :: 'a

record 'a state =
  blocks :: "addr \<rightharpoonup> 'a control_block"
  fresh :: addr
  arcs :: "var \<rightharpoonup> addr option"
  weak_arcs :: "var \<rightharpoonup> addr option"
  trace :: "event list"

definition init :: "'a state" where
  "init = \<lparr>blocks = Map.empty, fresh = 0, arcs = Map.empty, weak_arcs = Map.empty, trace = []\<rparr>"

definition add_ref :: "addr \<Rightarrow> 'a state \<Rightarrow> fault + 'a state" where
  "add_ref p s = (case blocks s p of
      None \<Rightarrow> Inl Dangling
    | Some b \<Rightarrow> Inr (s\<lparr>blocks := (blocks s)(p \<mapsto> b\<lparr>cb_ref_count := cb_ref_count b + 1\<rparr>)\<rparr>))"

definition add_weak_ref :: "addr \<Rightarrow> 'a state \<Rightarrow> fault + 'a state" where
  "add_weak_ref p s = (case blocks s p of
      None \<Rightarrow> Inl Dangling
    | Some b \<Rightarrow> Inr (s\<lparr>blocks := (blocks s)(p \<mapsto> b\<lparr>cb_weak_count := cb_weak_count b + 1\<rparr>)\<rparr>))"

text \<open>
  \<^verbatim>\<open>delete this\<close>: the defaulted destructor of the block destroys the inline
  \<^verbatim>\<open>_object\<close>, then the block's memory is returned.
\<close>

definition delete_this :: "addr \<Rightarrow> 'a state \<Rightarrow> fault + 'a state" where
  "delete_this p s = (case blocks s p of
      None \<Rightarrow> Inl Dangling
    | Some b \<Rightarrow> Inr (s\<lparr>blocks := (blocks s)(p := None),
                       trace := trace s @ [ObjectDestroyed p, BlockFreed p]\<rparr>))"

definition release_weak_ref :: "addr \<Rightarrow> 'a state \<Rightarrow> fault + 'a state" where
  "release_weak_ref p s = (case blocks s p of
      None \<Rightarrow> Inl Dangling
    | Some b \<Rightarrow>
        (let s1 = s\<lparr>blocks := (blocks s)(p \<mapsto> b\<lparr>cb_weak_count := cb_weak_count b - 1\<rparr>)\<rparr>
         in if cb_weak_count b = 1 then delete_this p s1 else Inr s1))"

definition release_ref :: "addr \<Rightarrow> 'a state \<Rightarrow> fault + 'a state" where
  "release_ref p s = (case blocks s p of
      None \<Rightarrow> Inl Dangling
    | Some b \<Rightarrow>
        (let s1 = s\<lparr>blocks := (blocks s)(p \<mapsto> b\<lparr>cb_ref_count := cb_ref_count b - 1\<rparr>)\<rparr>
         in if cb_ref_count b = 1 then release_weak_ref p s1 else Inr s1))"

definition ref_count :: "addr \<Rightarrow> 'a state \<Rightarrow> fault + size_t" where
  "ref_count p s = (case blocks s p of
      None \<Rightarrow> Inl Dangling
    | Some b \<Rightarrow> Inr (cb_ref_count b))"

subsection \<open>Strong handle \<^verbatim>\<open>arc<T>\<close>\<close>

text \<open>\<^verbatim>\<open>arc() noexcept : _block(nullptr) {}\<close>\<close>

definition arc_default :: "var \<Rightarrow> 'a state \<Rightarrow> fault + 'a state" where
  "arc_default v s = (case arcs s v of
      Some _ \<Rightarrow> Inl NotAnObject
    | None \<Rightarrow> Inr (s\<lparr>arcs := (arcs s)(v \<mapsto> None)\<rparr>))"

text \<open>
  \<^verbatim>\<open>explicit arc(Args&&... args) : _block(new control_block(args...)) {}\<close>; the
  block starts with both counters at 1. The payload value \<open>x\<close> stands for the object built
  from the constructor arguments.
\<close>

definition arc_make :: "var \<Rightarrow> 'a \<Rightarrow> 'a state \<Rightarrow> fault + 'a state" where
  "arc_make v x s = (case arcs s v of
      Some _ \<Rightarrow> Inl NotAnObject
    | None \<Rightarrow> Inr (s\<lparr>blocks := (blocks s)(fresh s \<mapsto>
                          \<lparr>cb_ref_count = 1, cb_weak_count = 1, cb_object = x\<rparr>),
                       fresh := Suc (fresh s),
                       arcs := (arcs s)(v \<mapsto> Some (fresh s))\<rparr>))"

text \<open>\<^verbatim>\<open>arc(const arc& other)\<close>: copy the pointer, then \<^verbatim>\<open>add_ref\<close> if it is not null.\<close>

definition arc_copy :: "var \<Rightarrow> var \<Rightarrow> 'a state \<Rightarrow> fault + 'a state" where
  "arc_copy v other s = (case arcs s v of
      Some _ \<Rightarrow> Inl NotAnObject
    | None \<Rightarrow> (case arcs s other of
        None \<Rightarrow> Inl NotAnObject
      | Some blk \<Rightarrow>
          (let s1 = s\<lparr>arcs := (arcs s)(v \<mapsto> blk)\<rparr>
           in case blk of None \<Rightarrow> Inr s1 | Some p \<Rightarrow> add_ref p s1)))"

text \<open>\<^verbatim>\<open>arc(arc&& other) : _block(std::exchange(other._block, nullptr)) {}\<close>\<close>

definition arc_move :: "var \<Rightarrow> var \<Rightarrow> 'a state \<Rightarrow> fault + 'a state" where
  "arc_move v other s = (case arcs s v of
      Some _ \<Rightarrow> Inl NotAnObject
    | None \<Rightarrow> (case arcs s other of
        None \<Rightarrow> Inl NotAnObject
      | Some blk \<Rightarrow> Inr (s\<lparr>arcs := (arcs s)(other \<mapsto> None, v \<mapsto> blk)\<rparr>)))"

text \<open>The private \<^verbatim>\<open>explicit arc(control_block* block)\<close> used by \<^verbatim>\<open>lock\<close>.\<close>

definition arc_from_block :: "var \<Rightarrow> addr option \<Rightarrow> 'a state \<Rightarrow> fault + 'a state" where
  "arc_from_block v blk s = (case arcs s v of
      Some _ \<Rightarrow> Inl NotAnObject
    | None \<Rightarrow>
        (let s1 = s\<lparr>arcs := (arcs s)(v \<mapsto> blk)\<rparr>
         in case blk of None \<Rightarrow> Inr s1 | Some p \<Rightarrow> add_ref p s1))"

text \<open>\<^verbatim>\<open>~arc()\<close>: \<^verbatim>\<open>release_ref\<close> if not null; afterwards the handle object is gone.\<close>

definition arc_dtor :: "var \<Rightarrow> 'a state \<Rightarrow> fault + 'a state" where
  "arc_dtor v s = (case arcs s v of
      None \<Rightarrow> Inl NotAnObject
    | Some blk \<Rightarrow>
        (case (case blk of None \<Rightarrow> Inr s | Some p \<Rightarrow> release_ref p s) of
           Inl e \<Rightarrow> Inl e
         | Inr s1 \<Rightarrow> Inr (s1\<lparr>arcs := (arcs s1)(v := None)\<rparr>)))"

definition arc_use_count :: "var \<Rightarrow> 'a state \<Rightarrow> fault + size_t" where
  "arc_use_count v s = (case arcs s v of
      None \<Rightarrow> Inl NotAnObject
    | Some blk \<Rightarrow> (case blk of None \<Rightarrow> Inr 0 | Some p \<Rightarrow> ref_count p s))"


definition arc_get :: "var \<Rightarrow> 'a state \<Rightarrow> fault + objptr" where
  "arc_get v s = (case arcs s v of
      None \<Rightarrow> Inl NotAnObject
    | Some blk \<Rightarrow> (case blk of None \<Rightarrow> Inr nullptr | Some p \<Rightarrow> Inr (ObjectOf p)))"

definition arc_bool :: "var \<Rightarrow> 'a state \<Rightarrow> fault + bool" where
  "arc_bool v s = (case arcs s v of
      None \<Rightarrow> Inl NotAnObject
    | Some blk \<Rightarrow> Inr (blk \<noteq> None))"

text \<open>
  \<^verbatim>\<open>operator=(const arc& other)\<close>: guarded by \<^verbatim>\<open>this != &other\<close>; releases the
  old block, copies the pointer, adds a reference to the new block.
\<close>

definition arc_assign :: "var \<Rightarrow> var \<Rightarrow> 'a state \<Rightarrow> fault + 'a state" where
  "arc_assign v other s = (case arcs s v of
      None \<Rightarrow> Inl NotAnObject
    | Some mine \<Rightarrow> (case arcs s other of
        None \<Rightarrow> Inl NotAnObject
      | Some theirs \<Rightarrow>
          if v \<noteq> other then
            (case (case mine of None \<Rightarrow> Inr s | Some p \<Rightarrow> release_ref p s) of
               Inl e \<Rightarrow> Inl e
             | Inr s1 \<Rightarrow>
                 (let s2 = s1\<lparr>arcs := (arcs s1)(v \<mapsto> theirs)\<rparr>
                  in case theirs of None \<Rightarrow> Inr s2 | Some q \<Rightarrow> add_ref q s2))
          else Inr s))"

text \<open>
  \<^verbatim>\<open>operator=(arc&& other)\<close>: guarded by \<^verbatim>\<open>this != &other\<close>; releases the old
  block, then takes the pointer of \<^verbatim>\<open>other\<close> and leaves \<^verbatim>\<open>nullptr\<close> there.
\<close>

definition arc_move_assign :: "var \<Rightarrow> var \<Rightarrow> 'a state \<Rightarrow> fault + 'a state" where
  "arc_move_assign v other s = (case arcs s v of
      None \<Rightarrow> Inl NotAnObject
    | Some mine \<Rightarrow> (case arcs s other of
        None \<Rightarrow> Inl NotAnObject
      | Some theirs \<Rightarrow>
          if v \<noteq> other then
            (case (case mine of None \<Rightarrow> Inr s | Some p \<Rightarrow> release_ref p s) of
               Inl e \<Rightarrow> Inl e
             | Inr s1 \<Rightarrow> Inr (s1\<lparr>arcs := (arcs s1)(other \<mapsto> None, v \<mapsto> theirs)\<rparr>))
          else Inr s))"

subsection \<open>Weak handle \<^verbatim>\<open>weak_arc<T>\<close>\<close>

definition weak_default :: "var \<Rightarrow> 'a state \<Rightarrow> fault + 'a state" where
  "weak_default w s = (case weak_arcs s w of
      Some _ \<Rightarrow> Inl NotAnObject
    | None \<Rightarrow> Inr (s\<lparr>weak_arcs := (weak_arcs s)(w \<mapsto> None)\<rparr>))"

text \<open>\<^verbatim>\<open>weak_arc(const arc<T>& shared)\<close>\<close>

definition weak_from_arc :: "var \<Rightarrow> var \<Rightarrow> 'a state \<Rightarrow> fault + 'a state" where
  "weak_from_arc w shared s = (case weak_arcs s w of
      Some _ \<Rightarrow> Inl NotAnObject
    | None \<Rightarrow> (case arcs s shared of
        None \<Rightarrow> Inl NotAnObject
      | Some blk \<Rightarrow>
          (let s1 = s\<lparr>weak_arcs := (weak_arcs s)(w \<mapsto> blk)\<rparr>
           in case blk of None \<Rightarrow> Inr s1 | Some p \<Rightarrow> add_weak_ref p s1)))"

definition weak_copy :: "var \<Rightarrow> var \<Rightarrow> 'a state \<Rightarrow> fault + 'a state" where
  "weak_copy w other s = (case weak_arcs s w of
      Some _ \<Rightarrow> Inl NotAnObject
    | None \<Rightarrow> (case weak_arcs s other of
        None \<Rightarrow> Inl NotAnObject
      | Some blk \<Rightarrow>
          (let s1 = s\<lparr>weak_arcs := (weak_arcs s)(w \<mapsto> blk)\<rparr>
           in case blk of None \<Rightarrow> Inr s1 | Some p \<Rightarrow> add_weak_ref p s1)))"

definition weak_move :: "var \<Rightarrow> var \<Rightarrow> 'a state \<Rightarrow> fault + 'a state" where
  "weak_move w other s = (case weak_arcs s w of
      Some _ \<Rightarrow> Inl NotAnObject
    | None \<Rightarrow> (case weak_arcs s other of
        None \<Rightarrow> Inl NotAnObject
      | Some blk \<Rightarrow> Inr (s\<lparr>weak_arcs := (weak_arcs s)(other \<mapsto> None, w \<mapsto> blk)\<rparr>)))"

definition weak_dtor :: "var \<Rightarrow> 'a state \<Rightarrow> fault + 'a state" where
  "weak_dtor w s = (case weak_arcs s w of
      None \<Rightarrow> Inl NotAnObject
    | Some blk \<Rightarrow>
        (case (case blk of None \<Rightarrow> Inr s | Some p \<Rightarrow> release_weak_ref p s) of
           Inl e \<Rightarrow> Inl e
         | Inr s1 \<Rightarrow> Inr (s1\<lparr>weak_arcs := (weak_arcs s1)(w := None)\<rparr>)))"

definition weak_use_count :: "var \<Rightarrow> 'a state \<Rightarrow> fault + size_t" where
  "weak_use_count w s = (case weak_arcs s w of
      None \<Rightarrow> Inl NotAnObject
    | Some blk \<Rightarrow> (case blk of None \<Rightarrow> Inr 0 | Some p \<Rightarrow> ref_count p s))"

definition weak_expired :: "var \<Rightarrow> 'a state \<Rightarrow> fault + bool" where
  "weak_expired w s = (case weak_use_count w s of Inl e \<Rightarrow> Inl e | Inr n \<Rightarrow> Inr (n = 0))"

text \<open>
  \<^verbatim>\<open>lock()\<close>: the returned handle is constructed in the caller's object \<open>v\<close>.
  The condition \<^verbatim>\<open>_block && _block->ref_count() > 0\<close> short-circuits on a null pointer.
\<close>

definition weak_lock :: "var \<Rightarrow> var \<Rightarrow> 'a state \<Rightarrow> fault + 'a state" where
  "weak_lock v w s = (case weak_arcs s w of
      None \<Rightarrow> Inl NotAnObject
    | Some blk \<Rightarrow> (case blk of
        None \<Rightarrow> arc_default v s
      | Some p \<Rightarrow> (case ref_count p s of
          Inl e \<Rightarrow> Inl e
        | Inr n \<Rightarrow> if n > 0 then arc_from_block v (Some p) s else arc_default v s)))"

definition weak_assign :: "var \<Rightarrow> var \<Rightarrow> 'a state \<Rightarrow> fault + 'a state" where
  "weak_assign w other s = (case weak_arcs s w of
      None \<Rightarrow> Inl NotAnObject
    | Some mine \<Rightarrow> (case weak_arcs s other of
        None \<Rightarrow> Inl NotAnObject
      | Some theirs \<Rightarrow>
          if w \<noteq> other then
            (case (case mine of None \<Rightarrow> Inr s | Some p \<Rightarrow> release_weak_ref p s) of
               Inl e \<Rightarrow> Inl e
             | Inr s1 \<Rightarrow>
                 (let s2 = s1\<lparr>weak_arcs := (weak_arcs s1)(w \<mapsto> theirs)\<rparr>
                  in case theirs of None \<Rightarrow> Inr s2 | Some q \<Rightarrow> add_weak_ref q s2))
          else Inr s))"

definition weak_move_assign :: "var \<Rightarrow> var \<Rightarrow> 'a state \<Rightarrow> fault + 'a state" where
  "weak_move_assign w other s = (case weak_arcs s w of
      None \<Rightarrow> Inl NotAnObject
    | Some mine \<Rightarrow> (case weak_arcs s other of
        None \<Rightarrow> Inl NotAnObject
      | Some theirs \<Rightarrow>
          if w \<noteq> other then
            (case (case mine of None \<Rightarrow> Inr s | Some p \<Rightarrow> release_weak_ref p s) of
               Inl e \<Rightarrow> Inl e
             | Inr s1 \<Rightarrow> Inr (s1\<lparr>weak_arcs := (weak_arcs s1)(other \<mapsto> None, w \<mapsto> theirs)\<rparr>))
          else Inr s))"

subsection \<open>Programs over handles\<close>

datatype 'a op =
    ArcDefault var
  | ArcMake var 'a
  | ArcCopy var var
  | ArcMove var var
  | ArcDtor var
  | ArcAssign var var
  | ArcMoveAssign var var
  | WeakDefault var
  | WeakFromArc var var
  | WeakCopy var var
  | WeakMove var var
  | WeakDtor var
  | WeakAssign var var
  | WeakMoveAssign var var
  | WeakLock var var

fun step :: "'a op \<Rightarrow> 'a state \<Rightarrow> fault + 'a state" where
  "step (ArcDefault v) s = arc_default v s"
| "step (ArcMake v x) s = arc_make v x s"
| "step (ArcCopy v u) s = arc_copy v u s"
| "step (ArcMove v u) s = arc_move v u s"
| "step (ArcDtor v) s = arc_dtor v s"
| "step (ArcAssign v u) s = arc_assign v u s"
| "step (ArcMoveAssign v u) s = arc_move_assign v u s"
| "step (WeakDefault w) s = weak_default w s"
| "step (WeakFromArc w v) s = weak_from_arc w v s"
| "step (WeakCopy w u) s = weak_copy w u s"
| "step (WeakMove w u) s = weak_move w u s"
| "step (WeakDtor w) s = weak_dtor w s"
| "step (WeakAssign w u) s = weak_assign w u s"
| "step (WeakMoveAssign w u) s = weak_move_assign w u s"
| "step (WeakLock v w) s = weak_lock v w s"

fun run :: "'a op list \<Rightarrow> 'a state \<Rightarrow> fault + 'a state" where
  "run [] s = Inr s"
| "run (c # cs) s = (case step c s of Inl e \<Rightarrow> Inl e | Inr s1 \<Rightarrow> run cs s1)"

section \<open>Array variant\<close>

subsection \<open>Control block\<close>

text \<open>
  The array block owns a separately allocated buffer through \<^verbatim>\<open>_data\<close>
  (\<open>None\<close> is \<^verbatim>\<open>nullptr\<close>). Buffers live in their own map; an address of the
  one allocation counter is used for either a block or a buffer.
\<close>

record array_control_block =
  acb_ref_count :: size_t
  acb_weak_count :: size_t
  acb_data :: "addr option"
  acb_size :: size_t

record 'a array_state =
  arr_blocks :: "addr \<rightharpoonup> array_control_block"
  arr_buffers :: "addr \<rightharpoonup> 'a list"
  arr_fresh :: addr
  arr_arcs :: "var \<rightharpoonup> addr option"
  arr_weak_arcs :: "var \<rightharpoonup> addr option"
  arr_trace :: "event list"

definition arr_init :: "'a array_state" where
  "arr_init = \<lparr>arr_blocks = Map.empty, arr_buffers = Map.empty, arr_fresh = 0,
               arr_arcs = Map.empty, arr_weak_arcs = Map.empty, arr_trace = []\<rparr>"

definition arr_add_ref :: "addr \<Rightarrow> 'a array_state \<Rightarrow> fault + 'a array_state" where
  "arr_add_ref p s = (case arr_blocks s p of
      None \<Rightarrow> Inl Dangling
    | Some b \<Rightarrow> Inr (s\<lparr>arr_blocks := (arr_blocks s)(p \<mapsto> b\<lparr>acb_ref_count := acb_ref_count b + 1\<rparr>)\<rparr>))"

definition arr_add_weak_ref :: "addr \<Rightarrow> 'a array_state \<Rightarrow> fault + 'a array_state" where
  "arr_add_weak_ref p s = (case arr_blocks s p of
      None \<Rightarrow> Inl Dangling
    | Some b \<Rightarrow> Inr (s\<lparr>arr_blocks := (arr_blocks s)(p \<mapsto> b\<lparr>acb_weak_count := acb_weak_count b + 1\<rparr>)\<rparr>))"

text \<open>\<^verbatim>\<open>delete[] _data\<close>: the element destructors run and the buffer is returned.\<close>

definition arr_delete_data :: "addr \<Rightarrow> 'a array_state \<Rightarrow> fault + 'a array_state" where
  "arr_delete_data d s = (case arr_buffers s d of
      None \<Rightarrow> Inl Dangling
    | Some xs \<Rightarrow> Inr (s\<lparr>arr_buffers := (arr_buffers s)(d := None),
                        arr_trace := arr_trace s @ [BufferFreed d]\<rparr>))"

text \<open>
  \<^verbatim>\<open>delete this\<close>: the destructor \<^verbatim>\<open>~control_block() { if (_data) delete[] _data; }\<close>
  runs, then the block's memory is returned.
\<close>

definition arr_delete_this :: "addr \<Rightarrow> 'a array_state \<Rightarrow> fault + 'a array_state" where
  "arr_delete_this p s = (case arr_blocks s p of
      None \<Rightarrow> Inl Dangling
    | Some b \<Rightarrow>
        (case (case acb_data b of None \<Rightarrow> Inr s | Some d \<Rightarrow> arr_delete_data d s) of
           Inl e \<Rightarrow> Inl e
         | Inr s1 \<Rightarrow> Inr (s1\<lparr>arr_blocks := (arr_blocks s1)(p := None),
                             arr_trace := arr_trace s1 @ [BlockFreed p]\<rparr>)))"

definition arr_release_weak_ref :: "addr \<Rightarrow> 'a array_state \<Rightarrow> fault + 'a array_state" where
  "arr_release_weak_ref p s = (case arr_blocks s p of
      None \<Rightarrow> Inl Dangling
    | Some b \<Rightarrow>
        (let s1 = s\<lparr>arr_blocks := (arr_blocks s)(p \<mapsto> b\<lparr>acb_weak_count := acb_weak_count b - 1\<rparr>)\<rparr>
         in if acb_weak_count b = 1 then arr_delete_this p s1 else Inr s1))"

text \<open>
  \<^verbatim>\<open>release_ref\<close>: on the transition of \<^verbatim>\<open>_ref_count\<close> from 1 the buffer is deleted
  and \<^verbatim>\<open>_data\<close> is set to \<^verbatim>\<open>nullptr\<close> before the weak unit is released.
\<close>

definition arr_release_ref :: "addr \<Rightarrow> 'a array_state \<Rightarrow> fault + 'a array_state" where
  "arr_release_ref p s = (case arr_blocks s p of
      None \<Rightarrow> Inl Dangling
    | Some b \<Rightarrow>
        (let b1 = b\<lparr>acb_ref_count := acb_ref_count b - 1\<rparr>;
             s1 = s\<lparr>arr_blocks := (arr_blocks s)(p \<mapsto> b1)\<rparr>
         in if acb_ref_count b = 1 then
              (case acb_data b1 of
                 None \<Rightarrow> arr_release_weak_ref p s1
               | Some d \<Rightarrow> (case arr_delete_data d s1 of
                   Inl e \<Rightarrow> Inl e
                 | Inr s2 \<Rightarrow> arr_release_weak_ref p
                     (s2\<lparr>arr_blocks := (arr_blocks s2)(p \<mapsto> b1\<lparr>acb_data := None\<rparr>)\<rparr>)))
            else Inr s1))"

definition arr_ref_count :: "addr \<Rightarrow> 'a array_state \<Rightarrow> fault + size_t" where
  "arr_ref_count p s = (case arr_blocks s p of
      None \<Rightarrow> Inl Dangling
    | Some b \<Rightarrow> Inr (acb_ref_count b))"

subsection \<open>Strong handle \<^verbatim>\<open>arc<T[]>\<close>\<close>

definition arr_arc_default :: "var \<Rightarrow> 'a array_state \<Rightarrow> fault + 'a array_state" where
  "arr_arc_default v s = (case arr_arcs s v of
      Some _ \<Rightarrow> Inl NotAnObject
    | None \<Rightarrow> Inr (s\<lparr>arr_arcs := (arr_arcs s)(v \<mapsto> None)\<rparr>))"

text \<open>
  \<^verbatim>\<open>explicit arc(std::size_t n) : _block(new control_block(n)) {}\<close>: the block is
  allocated first, its constructor then allocates \<^verbatim>\<open>new element_type[n]\<close>. Every
  element starts as the default value \<open>x\<close> of the element type.
\<close>

definition arr_arc_make :: "var \<Rightarrow> size_t \<Rightarrow> 'a \<Rightarrow> 'a array_state \<Rightarrow> fault + 'a array_state" where
  "arr_arc_make v n x s = (case arr_arcs s v of
      Some _ \<Rightarrow> Inl NotAnObject
    | None \<Rightarrow> Inr (s\<lparr>arr_blocks := (arr_blocks s)(arr_fresh s \<mapsto>
                          \<lparr>acb_ref_count = 1, acb_weak_count = 1,
                           acb_data = Some (Suc (arr_fresh s)), acb_size = n\<rparr>),
                       arr_buffers := (arr_buffers s)(Suc (arr_fresh s) \<mapsto> replicate (unat n) x),
                       arr_fresh := Suc (Suc (arr_fresh s)),
                       arr_arcs := (arr_arcs s)(v \<mapsto> Some (arr_fresh s))\<rparr>))"

definition arr_arc_copy :: "var \<Rightarrow> var \<Rightarrow> 'a array_state \<Rightarrow> fault + 'a array_state" where
  "arr_arc_copy v other s = (case arr_arcs s v of
      Some _ \<Rightarrow> Inl NotAnObject
    | None \<Rightarrow> (case arr_arcs s other of
        None \<Rightarrow> Inl NotAnObject
      | Some blk \<Rightarrow>
          (let s1 = s\<lparr>arr_arcs := (arr_arcs s)(v \<mapsto> blk)\<rparr>
           in case blk of None \<Rightarrow> Inr s1 | Some p \<Rightarrow> arr_add_ref p s1)))"

definition arr_arc_move :: "var \<Rightarrow> var \<Rightarrow> 'a array_state \<Rightarrow> fault + 'a array_state" where
  "arr_arc_move v other s = (case arr_arcs s v of
      Some _ \<Rightarrow> Inl NotAnObject
    | None \<Rightarrow> (case arr_arcs s other of
        None \<Rightarrow> Inl NotAnObject
      | Some blk \<Rightarrow> Inr (s\<lparr>arr_arcs := (arr_arcs s)(other \<mapsto> None, v \<mapsto> blk)\<rparr>)))"

definition arr_arc_from_block :: "var \<Rightarrow> addr option \<Rightarrow> 'a array_state \<Rightarrow> fault + 'a array_state" where
  "arr_arc_from_block v blk s = (case arr_arcs s v of
      Some _ \<Rightarrow> Inl NotAnObject
    | None \<Rightarrow>
        (let s1 = s\<lparr>arr_arcs := (arr_arcs s)(v \<mapsto> blk)\<rparr>
         in case blk of None \<Rightarrow> Inr s1 | Some p \<Rightarrow> arr_add_ref p s1))"

definition arr_arc_dtor :: "var \<Rightarrow> 'a array_state \<Rightarrow> fault + 'a array_state" where
  "arr_arc_dtor v s = (case arr_arcs s v of
      None \<Rightarrow> Inl NotAnObject
    | Some blk \<Rightarrow>
        (case (case blk of None \<Rightarrow> Inr s | Some p \<Rightarrow> arr_release_ref p s) of
           Inl e \<Rightarrow> Inl e
         | Inr s1 \<Rightarrow> Inr (s1\<lparr>arr_arcs := (arr_arcs s1)(v := None)\<rparr>)))"

definition arr_arc_use_count :: "var \<Rightarrow> 'a array_state \<Rightarrow> fault + size_t" where
  "arr_arc_use_count v s = (case arr_arcs s v of
      None \<Rightarrow> Inl NotAnObject
    | Some blk \<Rightarrow> (case blk of None \<Rightarrow> Inr 0 | Some p \<Rightarrow> arr_ref_count p s))"


text \<open>\<^verbatim>\<open>get()\<close> reads the member \<^verbatim>\<open>_data\<close> of the block.\<close>

definition arr_arc_get :: "var \<Rightarrow> 'a array_state \<Rightarrow> fault + addr option" where
  "arr_arc_get v s = (case arr_arcs s v of
      None \<Rightarrow> Inl NotAnObject
    | Some blk \<Rightarrow> (case blk of
        None \<Rightarrow> Inr None
      | Some p \<Rightarrow> (case arr_blocks s p of None \<Rightarrow> Inl Dangling | Some b \<Rightarrow> Inr (acb_data b))))"

definition arr_arc_bool :: "var \<Rightarrow> 'a array_state \<Rightarrow> fault + bool" where
  "arr_arc_bool v s = (case arr_arcs s v of
      None \<Rightarrow> Inl NotAnObject
    | Some blk \<Rightarrow> Inr (blk \<noteq> None))"

definition arr_arc_assign :: "var \<Rightarrow> var \<Rightarrow> 'a array_state \<Rightarrow> fault + 'a array_state" where
  "arr_arc_assign v other s = (case arr_arcs s v of
      None \<Rightarrow> Inl NotAnObject
    | Some mine \<Rightarrow> (case arr_arcs s other of
        None \<Rightarrow> Inl NotAnObject
      | Some theirs \<Rightarrow>
          if v \<noteq> other then
            (case (case mine of None \<Rightarrow> Inr s | Some p \<Rightarrow> arr_release_ref p s) of
               Inl e \<Rightarrow> Inl e
             | Inr s1 \<Rightarrow>
                 (let s2 = s1\<lparr>arr_arcs := (arr_arcs s1)(v \<mapsto> theirs)\<rparr>
                  in case theirs of None \<Rightarrow> Inr s2 | Some q \<Rightarrow> arr_add_ref q s2))
          else Inr s))"

definition arr_arc_move_assign :: "var \<Rightarrow> var \<Rightarrow> 'a array_state \<Rightarrow> fault + 'a array_state" where
  "arr_arc_move_assign v other s = (case arr_arcs s v of
      None \<Rightarrow> Inl NotAnObject
    | Some mine \<Rightarrow> (case arr_arcs s other of
        None \<Rightarrow> Inl NotAnObject
      | Some theirs \<Rightarrow>
          if v \<noteq> other then
            (case (case mine of None \<Rightarrow> Inr s | Some p \<Rightarrow> arr_release_ref p s) of
               Inl e \<Rightarrow> Inl e
             | Inr s1 \<Rightarrow> Inr (s1\<lparr>arr_arcs := (arr_arcs s1)(other \<mapsto> None, v \<mapsto> theirs)\<rparr>))
          else Inr s))"

subsection \<open>Weak handle \<^verbatim>\<open>weak_arc<T[]>\<close>\<close>

definition arr_weak_default :: "var \<Rightarrow> 'a array_state \<Rightarrow> fault + 'a array_state" where
  "arr_weak_default w s = (case arr_weak_arcs s w of
      Some _ \<Rightarrow> Inl NotAnObject
    | None \<Rightarrow> Inr (s\<lparr>arr_weak_arcs := (arr_weak_arcs s)(w \<mapsto> None)\<rparr>))"

definition arr_weak_from_arc :: "var \<Rightarrow> var \<Rightarrow> 'a array_state \<Rightarrow> fault + 'a array_state" where
  "arr_weak_from_arc w shared s = (case arr_weak_arcs s w of
      Some _ \<Rightarrow> Inl NotAnObject
    | None \<Rightarrow> (case arr_arcs s shared of
        None \<Rightarrow> Inl NotAnObject
      | Some blk \<Rightarrow>
          (let s1 = s\<lparr>arr_weak_arcs := (arr_weak_arcs s)(w \<mapsto> blk)\<rparr>
           in case blk of None \<Rightarrow> Inr s1 | Some p \<Rightarrow> arr_add_weak_ref p s1)))"

definition arr_weak_copy :: "var \<Rightarrow> var \<Rightarrow> 'a array_state \<Rightarrow> fault + 'a array_state" where
  "arr_weak_copy w other s = (case arr_weak_arcs s w of
      Some _ \<Rightarrow> Inl NotAnObject
    | None \<Rightarrow> (case arr_weak_arcs s other of
        None \<Rightarrow> Inl NotAnObject
      | Some blk \<Rightarrow>
          (let s1 = s\<lparr>arr_weak_arcs := (arr_weak_arcs s)(w \<mapsto> blk)\<rparr>
           in case blk of None \<Rightarrow> Inr s1 | Some p \<Rightarrow> arr_add_weak_ref p s1)))"

definition arr_weak_move :: "var \<Rightarrow> var \<Rightarrow> 'a array_state \<Rightarrow> fault + 'a array_state" where
  "arr_weak_move w other s = (case arr_weak_arcs s w of
      Some _ \<Rightarrow> Inl NotAnObject
    | None \<Rightarrow> (case arr_weak_arcs s other of
        None \<Rightarrow> Inl NotAnObject
      | Some blk \<Rightarrow> Inr (s\<lparr>arr_weak_arcs := (arr_weak_arcs s)(other \<mapsto> None, w \<mapsto> blk)\<rparr>)))"

definition arr_weak_dtor :: "var \<Rightarrow> 'a array_state \<Rightarrow> fault + 'a array_state" where
  "arr_weak_dtor w s = (case arr_weak_arcs s w of
      None \<Rightarrow> Inl NotAnObject
    | Some blk \<Rightarrow>
        (case (case blk of None \<Rightarrow> Inr s | Some p \<Rightarrow> arr_release_weak_ref p s) of
           Inl e \<Rightarrow> Inl e
         | Inr s1 \<Rightarrow> Inr (s1\<lparr>arr_weak_arcs := (arr_weak_arcs s1)(w := None)\<rparr>)))"

definition arr_weak_use_count :: "var \<Rightarrow> 'a array_state \<Rightarrow> fault + size_t" where
  "arr_weak_use_count w s = (case arr_weak_arcs s w of
      None \<Rightarrow> Inl NotAnObject
    | Some blk \<Rightarrow> (case blk of None \<Rightarrow> Inr 0 | Some p \<Rightarrow> arr_ref_count p s))"

definition arr_weak_expired :: "var \<Rightarrow> 'a array_state \<Rightarrow> fault + bool" where
  "arr_weak_expired w s = (case arr_weak_use_count w s of Inl e \<Rightarrow> Inl e | Inr n \<Rightarrow> Inr (n = 0))"

definition arr_weak_lock :: "var \<Rightarrow> var \<Rightarrow> 'a array_state \<Rightarrow> fault + 'a array_state" where
  "arr_weak_lock v w s = (case arr_weak_arcs s w of
      None \<Rightarrow> Inl NotAnObject
    | Some blk \<Rightarrow> (case blk of
        None \<Rightarrow> arr_arc_default v s
      | Some p \<Rightarrow> (case arr_ref_count p s of
          Inl e \<Rightarrow> Inl e
        | Inr n \<Rightarrow> if n > 0 then arr_arc_from_block v (Some p) s else arr_arc_default v s)))"

definition arr_weak_assign :: "var \<Rightarrow> var \<Rightarrow> 'a array_state \<Rightarrow> fault + 'a array_state" where
  "arr_weak_assign w other s = (case arr_weak_arcs s w of
      None \<Rightarrow> Inl NotAnObject
    | Some mine \<Rightarrow> (case arr_weak_arcs s other of
        None \<Rightarrow> Inl NotAnObject
      | Some theirs \<Rightarrow>
          if w \<noteq> other then
            (case (case mine of None \<Rightarrow> Inr s | Some p \<Rightarrow> arr_release_weak_ref p s) of
               Inl e \<Rightarrow> Inl e
             | Inr s1 \<Rightarrow>
                 (let s2 = s1\<lparr>arr_weak_arcs := (arr_weak_arcs s1)(w \<mapsto> theirs)\<rparr>
                  in case theirs of None \<Rightarrow> Inr s2 | Some q \<Rightarrow> arr_add_weak_ref q s2))
          else Inr s))"

definition arr_weak_move_assign :: "var \<Rightarrow> var \<Rightarrow> 'a array_state \<Rightarrow> fault + 'a array_state" where
  "arr_weak_move_assign w other s = (case arr_weak_arcs s w of
      None \<Rightarrow> Inl NotAnObject
    | Some mine \<Rightarrow> (case arr_weak_arcs s other of
        None \<Rightarrow> Inl NotAnObject
      | Some theirs \<Rightarrow>
          if w \<noteq> other then
            (case (case mine of None \<Rightarrow> Inr s | Some p \<Rightarrow> arr_release_weak_ref p s) of
               Inl e \<Rightarrow> Inl e
             | Inr s1 \<Rightarrow> Inr (s1\<lparr>arr_weak_arcs := (arr_weak_arcs s1)(other \<mapsto> None, w \<mapsto> theirs)\<rparr>))
          else Inr s))"

subsection \<open>Programs over array handles\<close>

datatype 'a arr_op =
    ArrArcDefault var
  | ArrArcMake var size_t 'a
  | ArrArcCopy var var
  | ArrArcMove var var
  | ArrArcDtor var
  | ArrArcAssign var var
  | ArrArcMoveAssign var var
  | ArrWeakDefault var
  | ArrWeakFromArc var var
  | ArrWeakCopy var var
  | ArrWeakMove var var
  | ArrWeakDtor var
  | ArrWeakAssign var var
  | ArrWeakMoveAssign var var
  | ArrWeakLock var var

fun arr_step :: "'a arr_op \<Rightarrow> 'a array_state \<Rightarrow> fault + 'a array_state" where
  "arr_step (ArrArcDefault v) s = arr_arc_default v s"
| "arr_step (ArrArcMake v n x) s = arr_arc_make v n x s"
| "arr_step (ArrArcCopy v u) s = arr_arc_copy v u s"
| "arr_step (ArrArcMove v u) s = arr_arc_move v u s"
| "arr_step (ArrArcDtor v) s = arr_arc_dtor v s"
| "arr_step (ArrArcAssign v u) s = arr_arc_assign v u s"
| "arr_step (ArrArcMoveAssign v u) s = arr_arc_move_assign v u s"
| "arr_step (ArrWeakDefault w) s = arr_weak_default w s"
| "arr_step (ArrWeakFromArc w v) s = arr_weak_from_arc w v s"
| "arr_step (ArrWeakCopy w u) s = arr_weak_copy w u s"
| "arr_step (ArrWeakMove w u) s = arr_weak_move w u s"
| "arr_step (ArrWeakDtor w) s = arr_weak_dtor w s"
| "arr_step (ArrWeakAssign w u) s = arr_weak_assign w u s"
| "arr_step (ArrWeakMoveAssign w u) s = arr_weak_move_assign w u s"
| "arr_step (ArrWeakLock v w) s = arr_weak_lock v w s"

fun arr_run :: "'a arr_op list \<Rightarrow> 'a array_state \<Rightarrow> fault + 'a array_state" where
  "arr_run [] s = Inr s"
| "arr_run (c # cs) s = (case arr_step c s of Inl e \<Rightarrow> Inl e | Inr s1 \<Rightarrow> arr_run cs s1)"

section \<open>The two statements of \<^verbatim>\<open>lock()\<close>\<close>

text \<open>
  \<^verbatim>\<open>lock()\<close> is an \<^verbatim>\<open>if\<close> whose condition loads \<^verbatim>\<open>_ref_count\<close> and whose
  branches construct the result. The counter is a \<^verbatim>\<open>std::atomic\<close>, so each of the two
  accesses is indivisible, but nothing makes the pair indivisible: another thread can run
  between the load and the \<^verbatim>\<open>fetch_add\<close> of the constructor. The two functions below
  are the two halves; \<open>weak_lock_split\<close> and \<open>arr_weak_lock_split\<close> show that running
  them back to back is \<^verbatim>\<open>lock()\<close>.
\<close>

text \<open>The condition \<^verbatim>\<open>_block && _block->ref_count() > 0\<close>.\<close>

definition weak_lock_check :: "var \<Rightarrow> 'a state \<Rightarrow> fault + bool" where
  "weak_lock_check w s = (case weak_arcs s w of
      None \<Rightarrow> Inl NotAnObject
    | Some blk \<Rightarrow> (case blk of
        None \<Rightarrow> Inr False
      | Some p \<Rightarrow> (case ref_count p s of
          Inl e \<Rightarrow> Inl e
        | Inr n \<Rightarrow> Inr (n > 0))))"

text \<open>
  The branch taken for the value \<open>c\<close> of the condition:
  \<^verbatim>\<open>return arc<T>(_block);\<close> or \<^verbatim>\<open>return arc<T>();\<close>.
\<close>

definition weak_lock_return :: "var \<Rightarrow> var \<Rightarrow> bool \<Rightarrow> 'a state \<Rightarrow> fault + 'a state" where
  "weak_lock_return v w c s = (case weak_arcs s w of
      None \<Rightarrow> Inl NotAnObject
    | Some blk \<Rightarrow> if c then arc_from_block v blk s else arc_default v s)"

definition arr_weak_lock_check :: "var \<Rightarrow> 'a array_state \<Rightarrow> fault + bool" where
  "arr_weak_lock_check w s = (case arr_weak_arcs s w of
      None \<Rightarrow> Inl NotAnObject
    | Some blk \<Rightarrow> (case blk of
        None \<Rightarrow> Inr False
      | Some p \<Rightarrow> (case arr_ref_count p s of
          Inl e \<Rightarrow> Inl e
        | Inr n \<Rightarrow> Inr (n > 0))))"

definition arr_weak_lock_return ::
  "var \<Rightarrow> var \<Rightarrow> bool \<Rightarrow> 'a array_state \<Rightarrow> fault + 'a array_state" where
  "arr_weak_lock_return v w c s = (case arr_weak_arcs s w of
      None \<Rightarrow> Inl NotAnObject
    | Some blk \<Rightarrow> if c then arr_arc_from_block v blk s else arr_arc_default v s)"

section \<open>Invariant of the single-object variant\<close>

definition owners :: "(var \<rightharpoonup> addr option) \<Rightarrow> addr \<Rightarrow> var set" where
  "owners m p = {v. m v = Some (Some p)}"

definition handles :: "'a state \<Rightarrow> nat" where
  "handles s = card (dom (arcs s)) + card (dom (weak_arcs s))"

definition block_ok ::
  "addr \<Rightarrow> addr \<Rightarrow> nat \<Rightarrow> nat \<Rightarrow> event list \<Rightarrow> 'a control_block option \<Rightarrow> bool" where
  "block_ok p fr ns nw tr bo = (case bo of
      None \<Rightarrow> ns = 0 \<and> nw = 0
        \<and> count_list tr (BlockFreed p) = (if p < fr then 1 else 0)
        \<and> count_list tr (ObjectDestroyed p) = (if p < fr then 1 else 0)
    | Some b \<Rightarrow> p < fr
        \<and> unat (cb_ref_count b) = ns
        \<and> unat (cb_weak_count b) = nw + (if ns = 0 then 0 else 1)
        \<and> 0 < unat (cb_weak_count b)
        \<and> count_list tr (BlockFreed p) = 0
        \<and> count_list tr (ObjectDestroyed p) = 0)"

definition state_inv :: "'a state \<Rightarrow> bool" where
  "state_inv s = (finite (dom (arcs s)) \<and> finite (dom (weak_arcs s))
          \<and> (\<forall>p. block_ok p (fresh s) (card (owners (arcs s) p))
                   (card (owners (weak_arcs s) p)) (trace s) (blocks s p)))"

definition grows_by :: "'a state \<Rightarrow> 'a state \<Rightarrow> bool" where
  "grows_by s s' = (fresh s \<le> fresh s' \<and>
     ((\<exists>v. dom (arcs s') \<subseteq> insert v (dom (arcs s)) \<and> dom (weak_arcs s') \<subseteq> dom (weak_arcs s))
    \<or> (\<exists>w. dom (arcs s') \<subseteq> dom (arcs s) \<and> dom (weak_arcs s') \<subseteq> insert w (dom (weak_arcs s)))))"

section \<open>Invariant of the array variant\<close>

definition arr_handles :: "'a array_state \<Rightarrow> nat" where
  "arr_handles s = card (dom (arr_arcs s)) + card (dom (arr_weak_arcs s))"

text \<open>
  Blocks live at even addresses and the buffer of the block at \<open>p\<close> at \<open>Suc p\<close>; \<open>bf\<close> is
  the buffer found there.
\<close>

definition arr_block_ok ::
  "addr \<Rightarrow> addr \<Rightarrow> nat \<Rightarrow> nat \<Rightarrow> event list \<Rightarrow> array_control_block option
     \<Rightarrow> 'a list option \<Rightarrow> bool" where
  "arr_block_ok p fr ns nw tr bo bf = (even fr \<and> (case bo of
      None \<Rightarrow> ns = 0 \<and> nw = 0 \<and> bf = None
        \<and> count_list tr (BlockFreed p) = (if even p \<and> p < fr then 1 else 0)
        \<and> count_list tr (BufferFreed (Suc p)) = (if even p \<and> p < fr then 1 else 0)
    | Some b \<Rightarrow> even p \<and> p < fr
        \<and> unat (acb_ref_count b) = ns
        \<and> unat (acb_weak_count b) = nw + (if ns = 0 then 0 else 1)
        \<and> 0 < unat (acb_weak_count b)
        \<and> count_list tr (BlockFreed p) = 0
        \<and> acb_data b = (if ns = 0 then None else Some (Suc p))
        \<and> (bf = None) = (ns = 0)
        \<and> count_list tr (BufferFreed (Suc p)) = (if ns = 0 then 1 else 0)))"

definition arr_state_inv :: "'a array_state \<Rightarrow> bool" where
  "arr_state_inv s = (finite (dom (arr_arcs s)) \<and> finite (dom (arr_weak_arcs s))
          \<and> (\<forall>p. arr_block_ok p (arr_fresh s) (card (owners (arr_arcs s) p))
                   (card (owners (arr_weak_arcs s) p)) (arr_trace s) (arr_blocks s p)
                   (arr_buffers s (Suc p))))"

definition arr_grows_by :: "'a array_state \<Rightarrow> 'a array_state \<Rightarrow> bool" where
  "arr_grows_by s s' = (arr_fresh s \<le> arr_fresh s' \<and>
     ((\<exists>v. dom (arr_arcs s') \<subseteq> insert v (dom (arr_arcs s))
           \<and> dom (arr_weak_arcs s') \<subseteq> dom (arr_weak_arcs s))
    \<or> (\<exists>w. dom (arr_arcs s') \<subseteq> dom (arr_arcs s)
           \<and> dom (arr_weak_arcs s') \<subseteq> insert w (dom (arr_weak_arcs s)))))"


section \<open>Programs that only clone a strong handle\<close>

text \<open>The copy constructor \<^verbatim>\<open>arc(const arc& other)\<close> as a program step.\<close>

fun is_arc_copy :: "'a op \<Rightarrow> bool" where
  "is_arc_copy (ArcCopy v u) = True"
| "is_arc_copy _ = False"

fun is_arr_arc_copy :: "'a arr_op \<Rightarrow> bool" where
  "is_arr_arc_copy (ArrArcCopy v u) = True"
| "is_arr_arc_copy _ = False"

section \<open>Preservation of the invariant\<close>


lemma owners_subset_dom: "owners m p \<subseteq> dom m"
  by (auto simp: owners_def)

lemma finite_owners: "finite (dom m) \<Longrightarrow> finite (owners m p)"
  using owners_subset_dom finite_subset by blast

lemma card_owners_le: "finite (dom m) \<Longrightarrow> card (owners m p) \<le> card (dom m)"
  by (simp add: card_mono owners_subset_dom)

lemma owners_upd_other:
  "h \<noteq> Some p \<Longrightarrow> owners (m(v \<mapsto> h)) p = owners m p - {v}"
  by (auto simp: owners_def)

lemma owners_upd_same:
  "owners (m(v \<mapsto> Some p)) p = insert v (owners m p)"
  by (auto simp: owners_def)

lemma owners_del: "owners (m(v := None)) p = owners m p - {v}"
  by (auto simp: owners_def)

lemma card_owners_pos: "finite (dom m) \<Longrightarrow> m v = Some (Some p) \<Longrightarrow> 0 < card (owners m p)"
  using finite_owners [of m p] by (auto simp: card_gt_0_iff owners_def)

lemma card_owners_zero: "finite (dom m) \<Longrightarrow> card (owners m p) = 0 \<Longrightarrow> m v \<noteq> Some (Some p)"
  using card_owners_pos [of m v p] by auto

lemma card_owners_gain:
  assumes "finite (dom m)" and "\<forall>p. m v \<noteq> Some (Some p)"
  shows "card (owners (m(v \<mapsto> Some q)) p) = card (owners m p) + (if p = q then 1 else 0)"
proof (cases "p = q")
  case True
  have "v \<notin> owners m q" using assms(2) by (simp add: owners_def)
  then show ?thesis using True finite_owners [OF assms(1)]
    by (simp add: owners_upd_same)
next
  case False
  have "v \<notin> owners m p" using assms(2) by (simp add: owners_def)
  then show ?thesis using False by (simp add: owners_upd_other)
qed

lemma card_owners_null:
  assumes "finite (dom m)" and "m v = Some (Some q)"
  shows "card (owners (m(v \<mapsto> None)) p) = card (owners m p) - (if p = q then 1 else 0)"
proof (cases "p = q")
  case True
  have "v \<in> owners m q" using assms(2) by (simp add: owners_def)
  then show ?thesis using True finite_owners [OF assms(1)]
    by (simp add: owners_upd_other)
next
  case False
  have "v \<notin> owners m p" using assms(2) False by (simp add: owners_def)
  then show ?thesis using False by (simp add: owners_upd_other)
qed

lemma card_owners_del:
  assumes "finite (dom m)" and "m v = Some (Some q)"
  shows "card (owners (m(v := None)) p) = card (owners m p) - (if p = q then 1 else 0)"
proof (cases "p = q")
  case True
  have "v \<in> owners m q" using assms(2) by (simp add: owners_def)
  then show ?thesis using True finite_owners [OF assms(1)]
    by (simp add: owners_del)
next
  case False
  have "v \<notin> owners m p" using assms(2) False by (simp add: owners_def)
  then show ?thesis using False by (simp add: owners_del)
qed

lemma owners_keep_null:
  assumes "\<forall>p. m v \<noteq> Some (Some p)"
  shows "owners (m(v \<mapsto> None)) p = owners m p"
  using assms by (auto simp: owners_def)

lemma owners_keep_del:
  assumes "\<forall>p. m v \<noteq> Some (Some p)"
  shows "owners (m(v := None)) p = owners m p"
  using assms by (auto simp: owners_def)

lemma card_owners_transfer:
  assumes "finite (dom m)" and "\<forall>p. m v \<noteq> Some (Some p)" and "m u = Some h" and "v \<noteq> u"
  shows "card (owners (m(u \<mapsto> None, v \<mapsto> h)) p) = card (owners m p)"
proof (cases "h = Some p")
  case True
  have eq: "owners (m(u \<mapsto> None, v \<mapsto> h)) p = insert v (owners m p - {u})"
    using True assms(4) by (auto simp: owners_def)
  have u: "u \<in> owners m p" using True assms(3) by (simp add: owners_def)
  have v: "v \<notin> owners m p - {u}" using assms(2) by (simp add: owners_def)
  have fin: "finite (owners m p)" by (rule finite_owners [OF assms(1)])
  have "card (insert v (owners m p - {u})) = Suc (card (owners m p - {u}))"
    using v fin by simp
  also have "\<dots> = card (owners m p)"
    using fin u by (rule card_Suc_Diff1)
  finally show ?thesis by (simp add: eq)
next
  case False
  have "owners (m(u \<mapsto> None, v \<mapsto> h)) p = owners m p"
    using False assms(2,3,4) by (auto simp: owners_def)
  then show ?thesis by simp
qed

lemma inv_arcs_upd:
  assumes "state_inv s" and "finite (dom m)"
      and "\<forall>p. card (owners m p) = card (owners (arcs s) p)"
  shows "state_inv (s\<lparr>arcs := m\<rparr>)"
  using assms by (simp add: state_inv_def)

lemma inv_weak_arcs_upd:
  assumes "state_inv s" and "finite (dom m)"
      and "\<forall>p. card (owners m p) = card (owners (weak_arcs s) p)"
  shows "state_inv (s\<lparr>weak_arcs := m\<rparr>)"
  using assms by (simp add: state_inv_def)

lemma unat_plus_one: "unat (x :: size_t) < 2 ^ 64 - 1 \<Longrightarrow> unat (x + 1) = unat x + 1"
  by (simp add: unat_word_ariths)

lemma unat_minus_one': "0 < unat (x :: size_t) \<Longrightarrow> unat (x - 1) = unat x - 1"
  by (simp add: unat_minus_one unat_gt_0)

lemma unat_eq_one: "(x :: size_t) = 1 \<longleftrightarrow> unat x = 1"
  by (simp add: word_unat_eq_iff)

lemma block_ok_add_ref:
  assumes "block_ok p fr ns nw tr (Some b)" and "0 < ns" and "ns < 2 ^ 64 - 1"
  shows "block_ok p fr (ns + 1) nw tr (Some (b\<lparr>cb_ref_count := cb_ref_count b + 1\<rparr>))"
  using assms by (simp add: block_ok_def unat_plus_one)

lemma block_ok_add_weak_ref:
  assumes "block_ok p fr ns nw tr (Some b)" and "nw + (if ns = 0 then 0 else 1) < 2 ^ 64 - 1"
  shows "block_ok p fr ns (nw + 1) tr (Some (b\<lparr>cb_weak_count := cb_weak_count b + 1\<rparr>))"
proof -
  have w: "unat (cb_weak_count b) = nw + (if ns = 0 then 0 else 1)"
    using assms(1) by (simp add: block_ok_def)
  then have "unat (cb_weak_count b) < 2 ^ 64 - 1" using assms(2) by simp
  then have "unat (cb_weak_count b + 1) = unat (cb_weak_count b) + 1"
    by (rule unat_plus_one)
  then have "unat (cb_weak_count b + 1) = nw + 1 + (if ns = 0 then 0 else 1)"
    using w by simp
  then show ?thesis using assms(1) by (simp add: block_ok_def)
qed

lemma block_ok_release_ref_many:
  assumes "block_ok p fr ns nw tr (Some b)" and "cb_ref_count b \<noteq> 1" and "0 < ns"
  shows "block_ok p fr (ns - 1) nw tr (Some (b\<lparr>cb_ref_count := cb_ref_count b - 1\<rparr>))"
proof -
  have r: "unat (cb_ref_count b) = ns" using assms(1) by (simp add: block_ok_def)
  have "unat (cb_ref_count b) \<noteq> 1" using assms(2) by (simp add: word_unat_eq_iff)
  then have "1 < ns" using r assms(3) by arith
  moreover have "unat (cb_ref_count b - 1) = ns - 1"
    using r assms(3) by (simp add: unat_minus_one')
  ultimately show ?thesis using assms(1) by (simp add: block_ok_def)
qed

lemma block_ok_release_ref_last:
  assumes "block_ok p fr ns nw tr (Some b)" and "cb_ref_count b = 1" and "cb_weak_count b \<noteq> 1"
  shows "block_ok p fr (ns - 1) nw tr
           (Some (b\<lparr>cb_ref_count := cb_ref_count b - 1, cb_weak_count := cb_weak_count b - 1\<rparr>))"
proof -
  have r: "unat (cb_ref_count b) = ns" using assms(1) by (simp add: block_ok_def)
  have ns: "ns = 1" using r assms(2) by simp
  have w: "unat (cb_weak_count b) = nw + 1" using assms(1) ns by (simp add: block_ok_def)
  have "unat (cb_weak_count b) \<noteq> 1" using assms(3) by (simp add: word_unat_eq_iff)
  then have nw: "0 < nw" using w by arith
  have "unat (cb_weak_count b - 1) = nw" using w by (simp add: unat_minus_one')
  then show ?thesis using assms(1) assms(2) ns nw by (simp add: block_ok_def)
qed

lemma block_ok_release_ref_free:
  assumes "block_ok p fr ns nw tr (Some b)" and "cb_ref_count b = 1" and "cb_weak_count b = 1"
  shows "block_ok p fr (ns - 1) nw (tr @ [ObjectDestroyed p, BlockFreed p]) None"
proof -
  have r: "unat (cb_ref_count b) = ns" using assms(1) by (simp add: block_ok_def)
  have ns: "ns = 1" using r assms(2) by simp
  have w: "unat (cb_weak_count b) = nw + 1" using assms(1) ns by (simp add: block_ok_def)
  have nw: "nw = 0" using w assms(3) by simp
  show ?thesis using assms(1) ns nw by (simp add: block_ok_def)
qed

lemma block_ok_release_weak_many:
  assumes "block_ok p fr ns nw tr (Some b)" and "cb_weak_count b \<noteq> 1" and "0 < nw"
  shows "block_ok p fr ns (nw - 1) tr (Some (b\<lparr>cb_weak_count := cb_weak_count b - 1\<rparr>))"
proof -
  define k where "k = unat (cb_weak_count b)"
  define e :: nat where "e = (if ns = 0 then 0 else 1)"
  have w: "k = nw + e"
    using assms(1) by (simp add: block_ok_def k_def e_def)
  have n1: "k \<noteq> 1" using assms(2) by (simp add: word_unat_eq_iff k_def)
  have m: "unat (cb_weak_count b - 1) = k - 1"
    using w assms(3) by (simp add: unat_minus_one' k_def)
  have pos: "0 < k - 1" using w n1 assms(3) by linarith
  have eq: "k - 1 = nw - 1 + e" using w assms(3) by linarith
  have c3: "unat (cb_weak_count b - 1) = nw - 1 + (if ns = 0 then 0 else 1)"
    using m eq by (simp add: e_def)
  have c4: "0 < unat (cb_weak_count b - 1)" using m pos by simp
  show ?thesis using assms(1) c3 c4 by (simp add: block_ok_def)
qed

lemma block_ok_release_weak_free:
  assumes "block_ok p fr ns nw tr (Some b)" and "cb_weak_count b = 1" and "0 < nw"
  shows "block_ok p fr ns (nw - 1) (tr @ [ObjectDestroyed p, BlockFreed p]) None"
proof -
  have w: "unat (cb_weak_count b) = nw + (if ns = 0 then 0 else 1)"
    using assms(1) by (simp add: block_ok_def)
  have w1: "unat (cb_weak_count b) = 1" using assms(2) by simp
  have "nw = 1 \<and> ns = 0" using w w1 assms(3) by (cases "ns = 0") auto
  then show ?thesis using assms(1) by (simp add: block_ok_def)
qed

lemma block_ok_trace_other:
  assumes "block_ok p fr ns nw tr bo" and "p \<noteq> q"
  shows "block_ok p fr ns nw (tr @ [ObjectDestroyed q, BlockFreed q]) bo"
  using assms by (auto simp: block_ok_def split: option.splits)

lemma block_ok_alloc_other:
  assumes "block_ok p fr ns nw tr bo" and "p \<noteq> fr"
  shows "block_ok p (Suc fr) ns nw tr bo"
  using assms by (auto simp: block_ok_def split: option.splits)

lemma block_ok_alloc_new:
  assumes "block_ok fr fr ns nw tr bo"
  shows "block_ok fr (Suc fr) (ns + 1) nw tr
           (Some \<lparr>cb_ref_count = 1, cb_weak_count = 1, cb_object = x\<rparr>)"
  using assms by (auto simp: block_ok_def split: option.splits)


lemma inv_block: "state_inv s \<Longrightarrow> block_ok p (fresh s) (card (owners (arcs s) p))
    (card (owners (weak_arcs s) p)) (trace s) (blocks s p)"
  by (simp add: state_inv_def)

lemma inv_owner_live:
  assumes "state_inv s" and "arcs s v = Some (Some q)"
  shows "\<exists>b. blocks s q = Some b"
proof -
  have "0 < card (owners (arcs s) q)"
    using assms by (simp add: state_inv_def card_owners_pos)
  then show ?thesis using inv_block [OF assms(1), of q]
    by (cases "blocks s q") (simp_all add: block_ok_def)
qed

lemma inv_weak_owner_live:
  assumes "state_inv s" and "weak_arcs s w = Some (Some q)"
  shows "\<exists>b. blocks s q = Some b"
proof -
  have "0 < card (owners (weak_arcs s) q)"
    using assms by (simp add: state_inv_def card_owners_pos)
  then show ?thesis using inv_block [OF assms(1), of q]
    by (cases "blocks s q") (simp_all add: block_ok_def)
qed

lemma inv_acquire:
  assumes "state_inv s" and "\<forall>p. arcs s v \<noteq> Some (Some p)" and "blocks s q = Some b"
      and "0 < card (owners (arcs s) q)" and "handles s < 2 ^ 64 - 1"
  shows "state_inv (s\<lparr>arcs := (arcs s)(v \<mapsto> Some q),
                 blocks := (blocks s)(q \<mapsto> b\<lparr>cb_ref_count := cb_ref_count b + 1\<rparr>)\<rparr>)"
proof -
  have fin: "finite (dom (arcs s))" "finite (dom (weak_arcs s))"
    using assms(1) by (simp_all add: state_inv_def)
  have "card (owners (arcs s) q) \<le> card (dom (arcs s))"
    by (rule card_owners_le [OF fin(1)])
  then have bound: "card (owners (arcs s) q) < 2 ^ 64 - 1"
    using assms(5) by (simp add: handles_def)
  have "block_ok p (fresh s) (card (owners ((arcs s)(v \<mapsto> Some q)) p))
          (card (owners (weak_arcs s) p)) (trace s)
          (((blocks s)(q \<mapsto> b\<lparr>cb_ref_count := cb_ref_count b + 1\<rparr>)) p)" for p
  proof (cases "p = q")
    case True
    have "block_ok q (fresh s) (card (owners (arcs s) q) + 1)
            (card (owners (weak_arcs s) q)) (trace s)
            (Some (b\<lparr>cb_ref_count := cb_ref_count b + 1\<rparr>))"
      using inv_block [OF assms(1), of q] assms(3,4) bound
      by (intro block_ok_add_ref) simp_all
    then show ?thesis using True
      by (simp add: card_owners_gain [OF fin(1) assms(2)])
  next
    case False
    then show ?thesis using inv_block [OF assms(1), of p]
      by (simp add: card_owners_gain [OF fin(1) assms(2)])
  qed
  then show ?thesis using fin by (simp add: state_inv_def)
qed

lemma weak_bound:
  assumes "finite (dom m)" and "finite (dom wm)"
  shows "card (owners wm q) + (if card (owners m q) = 0 then 0 else 1)
           \<le> card (dom m) + card (dom wm)"
proof -
  have a: "card (owners wm q) \<le> card (dom wm)" by (rule card_owners_le [OF assms(2)])
  have b: "card (owners m q) \<le> card (dom m)" by (rule card_owners_le [OF assms(1)])
  show ?thesis using a b by (cases "card (owners m q) = 0") simp_all
qed

lemma inv_acquire_weak:
  assumes "state_inv s" and "\<forall>p. weak_arcs s w \<noteq> Some (Some p)" and "blocks s q = Some b"
      and "handles s < 2 ^ 64 - 1"
  shows "state_inv (s\<lparr>weak_arcs := (weak_arcs s)(w \<mapsto> Some q),
                 blocks := (blocks s)(q \<mapsto> b\<lparr>cb_weak_count := cb_weak_count b + 1\<rparr>)\<rparr>)"
proof -
  have fin: "finite (dom (arcs s))" "finite (dom (weak_arcs s))"
    using assms(1) by (simp_all add: state_inv_def)
  have bound: "card (owners (weak_arcs s) q) + (if card (owners (arcs s) q) = 0 then 0 else 1)
                 < 2 ^ 64 - 1"
    using weak_bound [OF fin, of q] assms(4) by (simp add: handles_def)
  have "block_ok p (fresh s) (card (owners (arcs s) p))
          (card (owners ((weak_arcs s)(w \<mapsto> Some q)) p)) (trace s)
          (((blocks s)(q \<mapsto> b\<lparr>cb_weak_count := cb_weak_count b + 1\<rparr>)) p)" for p
  proof (cases "p = q")
    case True
    have "block_ok q (fresh s) (card (owners (arcs s) q))
            (card (owners (weak_arcs s) q) + 1) (trace s)
            (Some (b\<lparr>cb_weak_count := cb_weak_count b + 1\<rparr>))"
      using inv_block [OF assms(1), of q] assms(3) bound
      by (intro block_ok_add_weak_ref) simp_all
    then show ?thesis using True
      by (simp add: card_owners_gain [OF fin(2) assms(2)])
  next
    case False
    then show ?thesis using inv_block [OF assms(1), of p]
      by (simp add: card_owners_gain [OF fin(2) assms(2)])
  qed
  then show ?thesis using fin by (simp add: state_inv_def)
qed

lemma inv_make:
  assumes "state_inv s" and "\<forall>p. arcs s v \<noteq> Some (Some p)"
  shows "state_inv (s\<lparr>blocks := (blocks s)(fresh s \<mapsto>
                     \<lparr>cb_ref_count = 1, cb_weak_count = 1, cb_object = x\<rparr>),
                 fresh := Suc (fresh s),
                 arcs := (arcs s)(v \<mapsto> Some (fresh s))\<rparr>)"
proof -
  have fin: "finite (dom (arcs s))" "finite (dom (weak_arcs s))"
    using assms(1) by (simp_all add: state_inv_def)
  have "block_ok p (Suc (fresh s)) (card (owners ((arcs s)(v \<mapsto> Some (fresh s))) p))
          (card (owners (weak_arcs s) p)) (trace s)
          (((blocks s)(fresh s \<mapsto> \<lparr>cb_ref_count = 1, cb_weak_count = 1, cb_object = x\<rparr>)) p)" for p
  proof (cases "p = fresh s")
    case True
    have "block_ok (fresh s) (Suc (fresh s)) (card (owners (arcs s) (fresh s)) + 1)
            (card (owners (weak_arcs s) (fresh s))) (trace s)
            (Some \<lparr>cb_ref_count = 1, cb_weak_count = 1, cb_object = x\<rparr>)"
      using inv_block [OF assms(1), of "fresh s"] by (rule block_ok_alloc_new)
    then show ?thesis using True
      by (simp add: card_owners_gain [OF fin(1) assms(2)])
  next
    case False
    have "block_ok p (Suc (fresh s)) (card (owners (arcs s) p))
            (card (owners (weak_arcs s) p)) (trace s) (blocks s p)"
      using inv_block [OF assms(1), of p] False by (rule block_ok_alloc_other)
    then show ?thesis using False
      by (simp add: card_owners_gain [OF fin(1) assms(2)])
  qed
  then show ?thesis using fin by (simp add: state_inv_def)
qed


lemma release_weak_ref_eq:
  assumes "blocks s q = Some b"
  shows "release_weak_ref q s = Inr (
     if cb_weak_count b \<noteq> 1
     then s\<lparr>blocks := (blocks s)(q \<mapsto> b\<lparr>cb_weak_count := cb_weak_count b - 1\<rparr>)\<rparr>
     else s\<lparr>blocks := (blocks s)(q := None),
             trace := trace s @ [ObjectDestroyed q, BlockFreed q]\<rparr>)"
  using assms by (simp add: release_weak_ref_def delete_this_def)

lemma release_ref_eq:
  assumes "blocks s q = Some b"
  shows "release_ref q s = Inr (
     if cb_ref_count b \<noteq> 1
     then s\<lparr>blocks := (blocks s)(q \<mapsto> b\<lparr>cb_ref_count := cb_ref_count b - 1\<rparr>)\<rparr>
     else if cb_weak_count b \<noteq> 1
     then s\<lparr>blocks := (blocks s)(q \<mapsto> b\<lparr>cb_ref_count := cb_ref_count b - 1,
                                            cb_weak_count := cb_weak_count b - 1\<rparr>)\<rparr>
     else s\<lparr>blocks := (blocks s)(q := None),
             trace := trace s @ [ObjectDestroyed q, BlockFreed q]\<rparr>)"
  using assms by (simp add: release_ref_def release_weak_ref_def delete_this_def)

lemma inv_release_ref:
  assumes "state_inv s" and "0 < card (owners (arcs s) q)" and "finite (dom m)"
      and "\<forall>p. card (owners m p) = card (owners (arcs s) p) - (if p = q then 1 else 0)"
  shows "\<exists>s1. release_ref q s = Inr s1 \<and> arcs s1 = arcs s \<and> weak_arcs s1 = weak_arcs s
              \<and> state_inv (s1\<lparr>arcs := m\<rparr>)"
proof -
  have fin: "finite (dom (weak_arcs s))"
    using assms(1) by (simp add: state_inv_def)
  obtain b where b: "blocks s q = Some b"
    using inv_block [OF assms(1), of q] assms(2)
    by (cases "blocks s q") (simp_all add: block_ok_def)
  have ok: "block_ok q (fresh s) (card (owners (arcs s) q)) (card (owners (weak_arcs s) q))
              (trace s) (Some b)"
    using inv_block [OF assms(1), of q] b by simp
  have other: "block_ok p (fresh s) (card (owners m p)) (card (owners (weak_arcs s) p))
                 (trace s) (blocks s p)" if "p \<noteq> q" for p
    using inv_block [OF assms(1), of p] assms(4) that by simp
  show ?thesis
  proof (cases "cb_ref_count b = 1")
    case False
    have "block_ok q (fresh s) (card (owners (arcs s) q) - 1) (card (owners (weak_arcs s) q))
            (trace s) (Some (b\<lparr>cb_ref_count := cb_ref_count b - 1\<rparr>))"
      using ok False assms(2) by (rule block_ok_release_ref_many)
    then have "block_ok p (fresh s) (card (owners m p)) (card (owners (weak_arcs s) p))
            (trace s) (((blocks s)(q \<mapsto> b\<lparr>cb_ref_count := cb_ref_count b - 1\<rparr>)) p)" for p
      using other [of p] assms(4) by (cases "p = q") simp_all
    then show ?thesis using False b fin assms(3)
      by (simp add: release_ref_eq [OF b] state_inv_def)
  next
    case one: True
    show ?thesis
    proof (cases "cb_weak_count b = 1")
      case False
      have "block_ok q (fresh s) (card (owners (arcs s) q) - 1) (card (owners (weak_arcs s) q))
              (trace s) (Some (b\<lparr>cb_ref_count := cb_ref_count b - 1,
                                 cb_weak_count := cb_weak_count b - 1\<rparr>))"
        using ok one False by (rule block_ok_release_ref_last)
      then have "block_ok p (fresh s) (card (owners m p)) (card (owners (weak_arcs s) p))
              (trace s) (((blocks s)(q \<mapsto> b\<lparr>cb_ref_count := cb_ref_count b - 1,
                                 cb_weak_count := cb_weak_count b - 1\<rparr>)) p)" for p
        using other [of p] assms(4) by (cases "p = q") simp_all
      then show ?thesis using False one b fin assms(3)
        by (simp add: release_ref_eq [OF b] state_inv_def)
    next
      case True
      have "block_ok q (fresh s) (card (owners (arcs s) q) - 1) (card (owners (weak_arcs s) q))
              (trace s @ [ObjectDestroyed q, BlockFreed q]) None"
        using ok one True by (rule block_ok_release_ref_free)
      moreover have "block_ok p (fresh s) (card (owners m p)) (card (owners (weak_arcs s) p))
              (trace s @ [ObjectDestroyed q, BlockFreed q]) (blocks s p)" if "p \<noteq> q" for p
        using other [OF that] that by (rule block_ok_trace_other)
      ultimately have "block_ok p (fresh s) (card (owners m p)) (card (owners (weak_arcs s) p))
              (trace s @ [ObjectDestroyed q, BlockFreed q]) (((blocks s)(q := None)) p)" for p
        using assms(4) by (cases "p = q") simp_all
      then show ?thesis using True one b fin assms(3)
        by (simp add: release_ref_eq [OF b] state_inv_def)
    qed
  qed
qed

lemma inv_release_weak_ref:
  assumes "state_inv s" and "0 < card (owners (weak_arcs s) q)" and "finite (dom m)"
      and "\<forall>p. card (owners m p) = card (owners (weak_arcs s) p) - (if p = q then 1 else 0)"
  shows "\<exists>s1. release_weak_ref q s = Inr s1 \<and> arcs s1 = arcs s \<and> weak_arcs s1 = weak_arcs s
              \<and> state_inv (s1\<lparr>weak_arcs := m\<rparr>)"
proof -
  have fin: "finite (dom (arcs s))"
    using assms(1) by (simp add: state_inv_def)
  obtain b where b: "blocks s q = Some b"
    using inv_block [OF assms(1), of q] assms(2)
    by (cases "blocks s q") (simp_all add: block_ok_def)
  have ok: "block_ok q (fresh s) (card (owners (arcs s) q)) (card (owners (weak_arcs s) q))
              (trace s) (Some b)"
    using inv_block [OF assms(1), of q] b by simp
  have other: "block_ok p (fresh s) (card (owners (arcs s) p)) (card (owners m p))
                 (trace s) (blocks s p)" if "p \<noteq> q" for p
    using inv_block [OF assms(1), of p] assms(4) that by simp
  show ?thesis
  proof (cases "cb_weak_count b = 1")
    case False
    have "block_ok q (fresh s) (card (owners (arcs s) q)) (card (owners (weak_arcs s) q) - 1)
            (trace s) (Some (b\<lparr>cb_weak_count := cb_weak_count b - 1\<rparr>))"
      using ok False assms(2) by (rule block_ok_release_weak_many)
    then have "block_ok p (fresh s) (card (owners (arcs s) p)) (card (owners m p))
            (trace s) (((blocks s)(q \<mapsto> b\<lparr>cb_weak_count := cb_weak_count b - 1\<rparr>)) p)" for p
      using other [of p] assms(4) by (cases "p = q") simp_all
    then show ?thesis using False b fin assms(3)
      by (simp add: release_weak_ref_eq [OF b] state_inv_def)
  next
    case True
    have "block_ok q (fresh s) (card (owners (arcs s) q)) (card (owners (weak_arcs s) q) - 1)
            (trace s @ [ObjectDestroyed q, BlockFreed q]) None"
      using ok True assms(2) by (rule block_ok_release_weak_free)
    moreover have "block_ok p (fresh s) (card (owners (arcs s) p)) (card (owners m p))
            (trace s @ [ObjectDestroyed q, BlockFreed q]) (blocks s p)" if "p \<noteq> q" for p
      using other [OF that] that by (rule block_ok_trace_other)
    ultimately have "block_ok p (fresh s) (card (owners (arcs s) p)) (card (owners m p))
            (trace s @ [ObjectDestroyed q, BlockFreed q]) (((blocks s)(q := None)) p)" for p
      using assms(4) by (cases "p = q") simp_all
    then show ?thesis using True b fin assms(3)
      by (simp add: release_weak_ref_eq [OF b] state_inv_def)
  qed
qed


lemma inv_set_null:
  assumes "state_inv s" and "\<forall>p. arcs s v \<noteq> Some (Some p)"
  shows "state_inv (s\<lparr>arcs := (arcs s)(v \<mapsto> None)\<rparr>)"
  using assms by (intro inv_arcs_upd) (simp_all add: owners_keep_null state_inv_def)

lemma inv_del_null:
  assumes "state_inv s" and "\<forall>p. arcs s v \<noteq> Some (Some p)"
  shows "state_inv (s\<lparr>arcs := (arcs s)(v := None)\<rparr>)"
  using assms by (intro inv_arcs_upd) (simp_all add: owners_keep_del state_inv_def)

lemma inv_transfer:
  assumes "state_inv s" and "\<forall>p. arcs s v \<noteq> Some (Some p)" and "arcs s u = Some h" and "v \<noteq> u"
  shows "state_inv (s\<lparr>arcs := (arcs s)(u \<mapsto> None, v \<mapsto> h)\<rparr>)"
proof -
  have fin: "finite (dom (arcs s))" using assms(1) by (simp add: state_inv_def)
  show ?thesis using assms fin
    by (intro inv_arcs_upd) (simp_all add: card_owners_transfer)
qed

lemma inv_weak_set_null:
  assumes "state_inv s" and "\<forall>p. weak_arcs s w \<noteq> Some (Some p)"
  shows "state_inv (s\<lparr>weak_arcs := (weak_arcs s)(w \<mapsto> None)\<rparr>)"
  using assms by (intro inv_weak_arcs_upd) (simp_all add: owners_keep_null state_inv_def)

lemma inv_weak_del_null:
  assumes "state_inv s" and "\<forall>p. weak_arcs s w \<noteq> Some (Some p)"
  shows "state_inv (s\<lparr>weak_arcs := (weak_arcs s)(w := None)\<rparr>)"
  using assms by (intro inv_weak_arcs_upd) (simp_all add: owners_keep_del state_inv_def)

lemma inv_weak_transfer:
  assumes "state_inv s" and "\<forall>p. weak_arcs s w \<noteq> Some (Some p)" and "weak_arcs s u = Some h"
      and "w \<noteq> u"
  shows "state_inv (s\<lparr>weak_arcs := (weak_arcs s)(u \<mapsto> None, w \<mapsto> h)\<rparr>)"
proof -
  have fin: "finite (dom (weak_arcs s))" using assms(1) by (simp add: state_inv_def)
  show ?thesis using assms fin
    by (intro inv_weak_arcs_upd) (simp_all add: card_owners_transfer)
qed

lemma inv_reset:
  assumes "state_inv s" and "arcs s v = Some mine"
  shows "\<exists>s1. (case mine of None \<Rightarrow> Inr s | Some p \<Rightarrow> release_ref p s) = Inr s1
            \<and> arcs s1 = arcs s \<and> weak_arcs s1 = weak_arcs s
            \<and> state_inv (s1\<lparr>arcs := (arcs s)(v \<mapsto> None)\<rparr>)
            \<and> state_inv (s1\<lparr>arcs := (arcs s)(v := None)\<rparr>)"
proof (cases mine)
  case None
  then have "\<forall>p. arcs s v \<noteq> Some (Some p)" using assms(2) by simp
  then show ?thesis using None assms(1) by (simp add: inv_set_null inv_del_null)
next
  case (Some q)
  have fin: "finite (dom (arcs s))" using assms(1) by (simp add: state_inv_def)
  have own: "arcs s v = Some (Some q)" using assms(2) Some by simp
  have pos: "0 < card (owners (arcs s) q)" by (rule card_owners_pos [OF fin own])
  obtain s1 where s1: "release_ref q s = Inr s1" "arcs s1 = arcs s" "weak_arcs s1 = weak_arcs s"
      "state_inv (s1\<lparr>arcs := (arcs s)(v \<mapsto> None)\<rparr>)"
    using inv_release_ref [OF assms(1) pos, of "(arcs s)(v \<mapsto> None)"] fin
    by (auto simp: card_owners_null [OF fin own])
  obtain s2 where s2: "release_ref q s = Inr s2" "state_inv (s2\<lparr>arcs := (arcs s)(v := None)\<rparr>)"
    using inv_release_ref [OF assms(1) pos, of "(arcs s)(v := None)"] fin
    by (auto simp: card_owners_del [OF fin own])
  have "s2 = s1" using s1(1) s2(1) by simp
  then show ?thesis using s1 s2 Some by simp
qed

lemma inv_weak_reset:
  assumes "state_inv s" and "weak_arcs s w = Some mine"
  shows "\<exists>s1. (case mine of None \<Rightarrow> Inr s | Some p \<Rightarrow> release_weak_ref p s) = Inr s1
            \<and> arcs s1 = arcs s \<and> weak_arcs s1 = weak_arcs s
            \<and> state_inv (s1\<lparr>weak_arcs := (weak_arcs s)(w \<mapsto> None)\<rparr>)
            \<and> state_inv (s1\<lparr>weak_arcs := (weak_arcs s)(w := None)\<rparr>)"
proof (cases mine)
  case None
  then have "\<forall>p. weak_arcs s w \<noteq> Some (Some p)" using assms(2) by simp
  then show ?thesis using None assms(1) by (simp add: inv_weak_set_null inv_weak_del_null)
next
  case (Some q)
  have fin: "finite (dom (weak_arcs s))" using assms(1) by (simp add: state_inv_def)
  have own: "weak_arcs s w = Some (Some q)" using assms(2) Some by simp
  have pos: "0 < card (owners (weak_arcs s) q)" by (rule card_owners_pos [OF fin own])
  obtain s1 where s1: "release_weak_ref q s = Inr s1" "arcs s1 = arcs s"
      "weak_arcs s1 = weak_arcs s" "state_inv (s1\<lparr>weak_arcs := (weak_arcs s)(w \<mapsto> None)\<rparr>)"
    using inv_release_weak_ref [OF assms(1) pos, of "(weak_arcs s)(w \<mapsto> None)"] fin
    by (auto simp: card_owners_null [OF fin own])
  obtain s2 where s2: "release_weak_ref q s = Inr s2"
      "state_inv (s2\<lparr>weak_arcs := (weak_arcs s)(w := None)\<rparr>)"
    using inv_release_weak_ref [OF assms(1) pos, of "(weak_arcs s)(w := None)"] fin
    by (auto simp: card_owners_del [OF fin own])
  have "s2 = s1" using s1(1) s2(1) by simp
  then show ?thesis using s1 s2 Some by simp
qed


lemma arc_default_inv:
  assumes "state_inv s" and "arc_default v s = Inr s'"
  shows "state_inv s'"
proof -
  have v: "arcs s v = None" and s': "s' = s\<lparr>arcs := (arcs s)(v \<mapsto> None)\<rparr>"
    using assms(2) by (auto simp: arc_default_def split: option.splits)
  show ?thesis unfolding s' using assms(1) v by (intro inv_set_null) simp_all
qed

lemma arc_make_inv:
  assumes "state_inv s" and "arc_make v x s = Inr s'"
  shows "state_inv s'"
proof -
  have v: "arcs s v = None"
    using assms(2) by (auto simp: arc_make_def split: option.splits)
  have s': "s' = s\<lparr>blocks := (blocks s)(fresh s \<mapsto>
                     \<lparr>cb_ref_count = 1, cb_weak_count = 1, cb_object = x\<rparr>),
                 fresh := Suc (fresh s),
                 arcs := (arcs s)(v \<mapsto> Some (fresh s))\<rparr>"
    using assms(2) v by (simp add: arc_make_def)
  show ?thesis unfolding s' using assms(1) v by (intro inv_make) simp_all
qed

lemma acquire_inv:
  assumes "state_inv s" and "handles s < 2 ^ 64 - 1" and "\<forall>p. arcs s v \<noteq> Some (Some p)"
      and "arcs s u = Some (Some q)"
  shows "\<exists>s'. add_ref q (s\<lparr>arcs := (arcs s)(v \<mapsto> Some q)\<rparr>) = Inr s' \<and> state_inv s'"
proof -
  have fin: "finite (dom (arcs s))" using assms(1) by (simp add: state_inv_def)
  obtain b where b: "blocks s q = Some b"
    using inv_owner_live [OF assms(1) assms(4)] by auto
  have pos: "0 < card (owners (arcs s) q)" by (rule card_owners_pos [OF fin assms(4)])
  have "state_inv (s\<lparr>arcs := (arcs s)(v \<mapsto> Some q),
                blocks := (blocks s)(q \<mapsto> b\<lparr>cb_ref_count := cb_ref_count b + 1\<rparr>)\<rparr>)"
    by (rule inv_acquire [OF assms(1) assms(3) b pos assms(2)])
  then show ?thesis using b by (simp add: add_ref_def)
qed

lemma arc_copy_inv:
  assumes "state_inv s" and "handles s < 2 ^ 64 - 1" and "arc_copy v u s = Inr s'"
  shows "state_inv s'"
proof -
  obtain blk where v: "arcs s v = None" and u: "arcs s u = Some blk"
    using assms(3) by (auto simp: arc_copy_def split: option.splits)
  have nv: "\<forall>p. arcs s v \<noteq> Some (Some p)" using v by simp
  show ?thesis
  proof (cases blk)
    case None
    then have "s' = s\<lparr>arcs := (arcs s)(v \<mapsto> None)\<rparr>"
      using assms(3) v u by (simp add: arc_copy_def)
    then show ?thesis using inv_set_null [OF assms(1) nv] by simp
  next
    case (Some q)
    then have "add_ref q (s\<lparr>arcs := (arcs s)(v \<mapsto> Some q)\<rparr>) = Inr s'"
      using assms(3) v u by (simp add: arc_copy_def)
    then show ?thesis using acquire_inv [OF assms(1) assms(2) nv, of u q] u Some by auto
  qed
qed

lemma arc_move_inv:
  assumes "state_inv s" and "arc_move v u s = Inr s'"
  shows "state_inv s'"
proof -
  obtain blk where v: "arcs s v = None" and u: "arcs s u = Some blk"
    using assms(2) by (auto simp: arc_move_def split: option.splits)
  have nv: "\<forall>p. arcs s v \<noteq> Some (Some p)" using v by simp
  have ne: "v \<noteq> u" using v u by auto
  have "s' = s\<lparr>arcs := (arcs s)(u \<mapsto> None, v \<mapsto> blk)\<rparr>"
    using assms(2) v u by (simp add: arc_move_def)
  then show ?thesis using inv_transfer [OF assms(1) nv u ne] by simp
qed

lemma arc_dtor_inv:
  assumes "state_inv s" and "arc_dtor v s = Inr s'"
  shows "state_inv s'"
proof -
  obtain mine where v: "arcs s v = Some mine"
    using assms(2) by (auto simp: arc_dtor_def split: option.splits)
  obtain s1 where s1: "(case mine of None \<Rightarrow> Inr s | Some p \<Rightarrow> release_ref p s) = Inr s1"
      "arcs s1 = arcs s" "state_inv (s1\<lparr>arcs := (arcs s)(v := None)\<rparr>)"
    using inv_reset [OF assms(1) v] by auto
  have "s' = s1\<lparr>arcs := (arcs s)(v := None)\<rparr>"
    using assms(2) v s1(1,2) by (simp add: arc_dtor_def)
  then show ?thesis using s1(3) by simp
qed

lemma handles_set_existing:
  assumes "arcs s v = Some h" and "arcs s1 = arcs s" and "weak_arcs s1 = weak_arcs s"
  shows "handles (s1\<lparr>arcs := (arcs s)(v \<mapsto> h')\<rparr>) = handles s"
proof -
  have "insert v (dom (arcs s)) = dom (arcs s)" using assms(1) by auto
  then show ?thesis using assms(2,3) by (simp add: handles_def)
qed

lemma arc_assign_inv:
  assumes "state_inv s" and "handles s < 2 ^ 64 - 1" and "arc_assign v u s = Inr s'"
  shows "state_inv s'"
proof -
  obtain mine theirs where v: "arcs s v = Some mine" and u: "arcs s u = Some theirs"
    using assms(3) by (auto simp: arc_assign_def split: option.splits)
  show ?thesis
  proof (cases "v = u")
    case True
    then have "s' = s" using assms(3) v by (simp add: arc_assign_def)
    then show ?thesis using assms(1) by simp
  next
    case False
    obtain s1 where s1: "(case mine of None \<Rightarrow> Inr s | Some p \<Rightarrow> release_ref p s) = Inr s1"
        "arcs s1 = arcs s" "weak_arcs s1 = weak_arcs s"
        "state_inv (s1\<lparr>arcs := (arcs s)(v \<mapsto> None)\<rparr>)"
      using inv_reset [OF assms(1) v] by auto
    define sm where "sm = s1\<lparr>arcs := (arcs s)(v \<mapsto> None)\<rparr>"
    have sm: "state_inv sm" using s1(4) by (simp add: sm_def)
    have hm: "handles sm < 2 ^ 64 - 1"
      using handles_set_existing [OF v s1(2,3), of None] assms(2) by (simp add: sm_def)
    have nv: "\<forall>p. arcs sm v \<noteq> Some (Some p)" by (simp add: sm_def)
    show ?thesis
    proof (cases theirs)
      case None
      then have "s' = sm"
        using assms(3) v u False s1(1,2) by (simp add: arc_assign_def sm_def)
      then show ?thesis using sm by simp
    next
      case (Some q)
      have uq: "arcs sm u = Some (Some q)" using u Some False by (simp add: sm_def)
      have "add_ref q (sm\<lparr>arcs := (arcs sm)(v \<mapsto> Some q)\<rparr>) = Inr s'"
        using assms(3) v u False s1(1,2) Some by (simp add: arc_assign_def sm_def)
      then show ?thesis using acquire_inv [OF sm hm nv uq] by auto
    qed
  qed
qed

lemma arc_move_assign_inv:
  assumes "state_inv s" and "arc_move_assign v u s = Inr s'"
  shows "state_inv s'"
proof -
  obtain mine theirs where v: "arcs s v = Some mine" and u: "arcs s u = Some theirs"
    using assms(2) by (auto simp: arc_move_assign_def split: option.splits)
  show ?thesis
  proof (cases "v = u")
    case True
    then have "s' = s" using assms(2) v by (simp add: arc_move_assign_def)
    then show ?thesis using assms(1) by simp
  next
    case False
    obtain s1 where s1: "(case mine of None \<Rightarrow> Inr s | Some p \<Rightarrow> release_ref p s) = Inr s1"
        "arcs s1 = arcs s" "weak_arcs s1 = weak_arcs s"
        "state_inv (s1\<lparr>arcs := (arcs s)(v \<mapsto> None)\<rparr>)"
      using inv_reset [OF assms(1) v] by auto
    define sm where "sm = s1\<lparr>arcs := (arcs s)(v \<mapsto> None)\<rparr>"
    have sm: "state_inv sm" using s1(4) by (simp add: sm_def)
    have nv: "\<forall>p. arcs sm v \<noteq> Some (Some p)" by (simp add: sm_def)
    have um: "arcs sm u = Some theirs" using u False by (simp add: sm_def)
    have tw: "(arcs s)(v \<mapsto> None, u \<mapsto> None, v \<mapsto> theirs) = (arcs s)(u \<mapsto> None, v \<mapsto> theirs)"
      by (rule ext) simp
    have "s' = s1\<lparr>arcs := (arcs s)(u \<mapsto> None, v \<mapsto> theirs)\<rparr>"
      using assms(2) v u False s1(1,2) by (simp add: arc_move_assign_def)
    also have "\<dots> = sm\<lparr>arcs := (arcs sm)(u \<mapsto> None, v \<mapsto> theirs)\<rparr>"
      by (simp add: sm_def tw)
    finally have "s' = sm\<lparr>arcs := (arcs sm)(u \<mapsto> None, v \<mapsto> theirs)\<rparr>" .
    then show ?thesis using inv_transfer [OF sm nv um False] by simp
  qed
qed

lemma weak_default_inv:
  assumes "state_inv s" and "weak_default w s = Inr s'"
  shows "state_inv s'"
proof -
  have w: "weak_arcs s w = None" and s': "s' = s\<lparr>weak_arcs := (weak_arcs s)(w \<mapsto> None)\<rparr>"
    using assms(2) by (auto simp: weak_default_def split: option.splits)
  show ?thesis unfolding s' using assms(1) w by (intro inv_weak_set_null) simp_all
qed

lemma acquire_weak_inv:
  assumes "state_inv s" and "handles s < 2 ^ 64 - 1" and "\<forall>p. weak_arcs s w \<noteq> Some (Some p)"
      and "blocks s q = Some b"
  shows "\<exists>s'. add_weak_ref q (s\<lparr>weak_arcs := (weak_arcs s)(w \<mapsto> Some q)\<rparr>) = Inr s' \<and> state_inv s'"
proof -
  have "state_inv (s\<lparr>weak_arcs := (weak_arcs s)(w \<mapsto> Some q),
                blocks := (blocks s)(q \<mapsto> b\<lparr>cb_weak_count := cb_weak_count b + 1\<rparr>)\<rparr>)"
    by (rule inv_acquire_weak [OF assms(1) assms(3) assms(4) assms(2)])
  then show ?thesis using assms(4) by (simp add: add_weak_ref_def)
qed

lemma weak_from_arc_inv:
  assumes "state_inv s" and "handles s < 2 ^ 64 - 1" and "weak_from_arc w v s = Inr s'"
  shows "state_inv s'"
proof -
  obtain blk where w: "weak_arcs s w = None" and v: "arcs s v = Some blk"
    using assms(3) by (auto simp: weak_from_arc_def split: option.splits)
  have nw: "\<forall>p. weak_arcs s w \<noteq> Some (Some p)" using w by simp
  show ?thesis
  proof (cases blk)
    case None
    then have "s' = s\<lparr>weak_arcs := (weak_arcs s)(w \<mapsto> None)\<rparr>"
      using assms(3) w v by (simp add: weak_from_arc_def)
    then show ?thesis using inv_weak_set_null [OF assms(1) nw] by simp
  next
    case (Some q)
    obtain b where b: "blocks s q = Some b"
      using inv_owner_live [OF assms(1), of v q] v Some by auto
    have "add_weak_ref q (s\<lparr>weak_arcs := (weak_arcs s)(w \<mapsto> Some q)\<rparr>) = Inr s'"
      using assms(3) w v Some by (simp add: weak_from_arc_def)
    then show ?thesis using acquire_weak_inv [OF assms(1) assms(2) nw b] by auto
  qed
qed

lemma weak_copy_inv:
  assumes "state_inv s" and "handles s < 2 ^ 64 - 1" and "weak_copy w u s = Inr s'"
  shows "state_inv s'"
proof -
  obtain blk where w: "weak_arcs s w = None" and u: "weak_arcs s u = Some blk"
    using assms(3) by (auto simp: weak_copy_def split: option.splits)
  have nw: "\<forall>p. weak_arcs s w \<noteq> Some (Some p)" using w by simp
  show ?thesis
  proof (cases blk)
    case None
    then have "s' = s\<lparr>weak_arcs := (weak_arcs s)(w \<mapsto> None)\<rparr>"
      using assms(3) w u by (simp add: weak_copy_def)
    then show ?thesis using inv_weak_set_null [OF assms(1) nw] by simp
  next
    case (Some q)
    obtain b where b: "blocks s q = Some b"
      using inv_weak_owner_live [OF assms(1), of u q] u Some by auto
    have "add_weak_ref q (s\<lparr>weak_arcs := (weak_arcs s)(w \<mapsto> Some q)\<rparr>) = Inr s'"
      using assms(3) w u Some by (simp add: weak_copy_def)
    then show ?thesis using acquire_weak_inv [OF assms(1) assms(2) nw b] by auto
  qed
qed

lemma weak_move_inv:
  assumes "state_inv s" and "weak_move w u s = Inr s'"
  shows "state_inv s'"
proof -
  obtain blk where w: "weak_arcs s w = None" and u: "weak_arcs s u = Some blk"
    using assms(2) by (auto simp: weak_move_def split: option.splits)
  have nw: "\<forall>p. weak_arcs s w \<noteq> Some (Some p)" using w by simp
  have ne: "w \<noteq> u" using w u by auto
  have "s' = s\<lparr>weak_arcs := (weak_arcs s)(u \<mapsto> None, w \<mapsto> blk)\<rparr>"
    using assms(2) w u by (simp add: weak_move_def)
  then show ?thesis using inv_weak_transfer [OF assms(1) nw u ne] by simp
qed

lemma weak_dtor_inv:
  assumes "state_inv s" and "weak_dtor w s = Inr s'"
  shows "state_inv s'"
proof -
  obtain mine where w: "weak_arcs s w = Some mine"
    using assms(2) by (auto simp: weak_dtor_def split: option.splits)
  obtain s1 where s1:
      "(case mine of None \<Rightarrow> Inr s | Some p \<Rightarrow> release_weak_ref p s) = Inr s1"
      "weak_arcs s1 = weak_arcs s" "state_inv (s1\<lparr>weak_arcs := (weak_arcs s)(w := None)\<rparr>)"
    using inv_weak_reset [OF assms(1) w] by auto
  have "s' = s1\<lparr>weak_arcs := (weak_arcs s)(w := None)\<rparr>"
    using assms(2) w s1(1,2) by (simp add: weak_dtor_def)
  then show ?thesis using s1(3) by simp
qed

lemma handles_weak_set_existing:
  assumes "weak_arcs s w = Some h" and "arcs s1 = arcs s" and "weak_arcs s1 = weak_arcs s"
  shows "handles (s1\<lparr>weak_arcs := (weak_arcs s)(w \<mapsto> h')\<rparr>) = handles s"
proof -
  have "insert w (dom (weak_arcs s)) = dom (weak_arcs s)" using assms(1) by auto
  then show ?thesis using assms(2,3) by (simp add: handles_def)
qed

lemma weak_assign_inv:
  assumes "state_inv s" and "handles s < 2 ^ 64 - 1" and "weak_assign w u s = Inr s'"
  shows "state_inv s'"
proof -
  obtain mine theirs where w: "weak_arcs s w = Some mine" and u: "weak_arcs s u = Some theirs"
    using assms(3) by (auto simp: weak_assign_def split: option.splits)
  show ?thesis
  proof (cases "w = u")
    case True
    then have "s' = s" using assms(3) w by (simp add: weak_assign_def)
    then show ?thesis using assms(1) by simp
  next
    case False
    obtain s1 where s1:
        "(case mine of None \<Rightarrow> Inr s | Some p \<Rightarrow> release_weak_ref p s) = Inr s1"
        "arcs s1 = arcs s" "weak_arcs s1 = weak_arcs s"
        "state_inv (s1\<lparr>weak_arcs := (weak_arcs s)(w \<mapsto> None)\<rparr>)"
      using inv_weak_reset [OF assms(1) w] by auto
    define sm where "sm = s1\<lparr>weak_arcs := (weak_arcs s)(w \<mapsto> None)\<rparr>"
    have sm: "state_inv sm" using s1(4) by (simp add: sm_def)
    have hm: "handles sm < 2 ^ 64 - 1"
      using handles_weak_set_existing [OF w s1(2,3), of None] assms(2) by (simp add: sm_def)
    have nw: "\<forall>p. weak_arcs sm w \<noteq> Some (Some p)" by (simp add: sm_def)
    show ?thesis
    proof (cases theirs)
      case None
      then have "s' = sm"
        using assms(3) w u False s1(1,3) by (simp add: weak_assign_def sm_def)
      then show ?thesis using sm by simp
    next
      case (Some q)
      have uq: "weak_arcs sm u = Some (Some q)" using u Some False by (simp add: sm_def)
      obtain b where b: "blocks sm q = Some b"
        using inv_weak_owner_live [OF sm uq] by auto
      have "add_weak_ref q (sm\<lparr>weak_arcs := (weak_arcs sm)(w \<mapsto> Some q)\<rparr>) = Inr s'"
        using assms(3) w u False s1(1,3) Some by (simp add: weak_assign_def sm_def)
      then show ?thesis using acquire_weak_inv [OF sm hm nw b] by auto
    qed
  qed
qed

lemma weak_move_assign_inv:
  assumes "state_inv s" and "weak_move_assign w u s = Inr s'"
  shows "state_inv s'"
proof -
  obtain mine theirs where w: "weak_arcs s w = Some mine" and u: "weak_arcs s u = Some theirs"
    using assms(2) by (auto simp: weak_move_assign_def split: option.splits)
  show ?thesis
  proof (cases "w = u")
    case True
    then have "s' = s" using assms(2) w by (simp add: weak_move_assign_def)
    then show ?thesis using assms(1) by simp
  next
    case False
    obtain s1 where s1:
        "(case mine of None \<Rightarrow> Inr s | Some p \<Rightarrow> release_weak_ref p s) = Inr s1"
        "arcs s1 = arcs s" "weak_arcs s1 = weak_arcs s"
        "state_inv (s1\<lparr>weak_arcs := (weak_arcs s)(w \<mapsto> None)\<rparr>)"
      using inv_weak_reset [OF assms(1) w] by auto
    define sm where "sm = s1\<lparr>weak_arcs := (weak_arcs s)(w \<mapsto> None)\<rparr>"
    have sm: "state_inv sm" using s1(4) by (simp add: sm_def)
    have nw: "\<forall>p. weak_arcs sm w \<noteq> Some (Some p)" by (simp add: sm_def)
    have um: "weak_arcs sm u = Some theirs" using u False by (simp add: sm_def)
    have tw: "(weak_arcs s)(w \<mapsto> None, u \<mapsto> None, w \<mapsto> theirs)
                = (weak_arcs s)(u \<mapsto> None, w \<mapsto> theirs)"
      by (rule ext) simp
    have "s' = s1\<lparr>weak_arcs := (weak_arcs s)(u \<mapsto> None, w \<mapsto> theirs)\<rparr>"
      using assms(2) w u False s1(1,3) by (simp add: weak_move_assign_def)
    also have "\<dots> = sm\<lparr>weak_arcs := (weak_arcs sm)(u \<mapsto> None, w \<mapsto> theirs)\<rparr>"
      by (simp add: sm_def tw)
    finally have "s' = sm\<lparr>weak_arcs := (weak_arcs sm)(u \<mapsto> None, w \<mapsto> theirs)\<rparr>" .
    then show ?thesis using inv_weak_transfer [OF sm nw um False] by simp
  qed
qed

lemma weak_lock_inv:
  assumes "state_inv s" and "handles s < 2 ^ 64 - 1" and "weak_lock v w s = Inr s'"
  shows "state_inv s'"
proof -
  obtain blk where w: "weak_arcs s w = Some blk"
    using assms(3) by (auto simp: weak_lock_def split: option.splits)
  show ?thesis
  proof (cases blk)
    case None
    then have "arc_default v s = Inr s'" using assms(3) w by (simp add: weak_lock_def)
    then show ?thesis using arc_default_inv [OF assms(1)] by simp
  next
    case (Some q)
    obtain b where b: "blocks s q = Some b"
      using inv_weak_owner_live [OF assms(1), of w q] w Some by auto
    show ?thesis
    proof (cases "cb_ref_count b = 0")
      case True
      then have "arc_default v s = Inr s'"
        using assms(3) w Some b by (simp add: weak_lock_def ref_count_def)
      then show ?thesis using arc_default_inv [OF assms(1)] by simp
    next
      case False
      then have fb: "arc_from_block v (Some q) s = Inr s'"
        using assms(3) w Some b by (simp add: weak_lock_def ref_count_def word_greater_zero_iff)
      then have v: "arcs s v = None"
        by (auto simp: arc_from_block_def split: option.splits)
      have nv: "\<forall>p. arcs s v \<noteq> Some (Some p)" using v by simp
      have "unat (cb_ref_count b) = card (owners (arcs s) q)"
        using inv_block [OF assms(1), of q] b by (simp add: block_ok_def)
      then have pos: "0 < card (owners (arcs s) q)"
        using False by (simp add: unat_gt_0 [symmetric])
      have "state_inv (s\<lparr>arcs := (arcs s)(v \<mapsto> Some q),
                blocks := (blocks s)(q \<mapsto> b\<lparr>cb_ref_count := cb_ref_count b + 1\<rparr>)\<rparr>)"
        by (rule inv_acquire [OF assms(1) nv b pos assms(2)])
      then show ?thesis using fb v b by (simp add: arc_from_block_def add_ref_def)
    qed
  qed
qed

lemma step_inv:
  assumes "state_inv s" and "handles s < 2 ^ 64 - 1" and "step c s = Inr s'"
  shows "state_inv s'"
proof (cases c)
  case (ArcDefault v)
  then have "arc_default v s = Inr s'" using assms(3) by simp
  then show ?thesis by (rule arc_default_inv [OF assms(1)])
next
  case (ArcMake v x)
  then have "arc_make v x s = Inr s'" using assms(3) by simp
  then show ?thesis by (rule arc_make_inv [OF assms(1)])
next
  case (ArcCopy v u)
  then have "arc_copy v u s = Inr s'" using assms(3) by simp
  then show ?thesis by (rule arc_copy_inv [OF assms(1,2)])
next
  case (ArcMove v u)
  then have "arc_move v u s = Inr s'" using assms(3) by simp
  then show ?thesis by (rule arc_move_inv [OF assms(1)])
next
  case (ArcDtor v)
  then have "arc_dtor v s = Inr s'" using assms(3) by simp
  then show ?thesis by (rule arc_dtor_inv [OF assms(1)])
next
  case (ArcAssign v u)
  then have "arc_assign v u s = Inr s'" using assms(3) by simp
  then show ?thesis by (rule arc_assign_inv [OF assms(1,2)])
next
  case (ArcMoveAssign v u)
  then have "arc_move_assign v u s = Inr s'" using assms(3) by simp
  then show ?thesis by (rule arc_move_assign_inv [OF assms(1)])
next
  case (WeakDefault w)
  then have "weak_default w s = Inr s'" using assms(3) by simp
  then show ?thesis by (rule weak_default_inv [OF assms(1)])
next
  case (WeakFromArc w v)
  then have "weak_from_arc w v s = Inr s'" using assms(3) by simp
  then show ?thesis by (rule weak_from_arc_inv [OF assms(1,2)])
next
  case (WeakCopy w u)
  then have "weak_copy w u s = Inr s'" using assms(3) by simp
  then show ?thesis by (rule weak_copy_inv [OF assms(1,2)])
next
  case (WeakMove w u)
  then have "weak_move w u s = Inr s'" using assms(3) by simp
  then show ?thesis by (rule weak_move_inv [OF assms(1)])
next
  case (WeakDtor w)
  then have "weak_dtor w s = Inr s'" using assms(3) by simp
  then show ?thesis by (rule weak_dtor_inv [OF assms(1)])
next
  case (WeakAssign w u)
  then have "weak_assign w u s = Inr s'" using assms(3) by simp
  then show ?thesis by (rule weak_assign_inv [OF assms(1,2)])
next
  case (WeakMoveAssign w u)
  then have "weak_move_assign w u s = Inr s'" using assms(3) by simp
  then show ?thesis by (rule weak_move_assign_inv [OF assms(1)])
next
  case (WeakLock v w)
  then have "weak_lock v w s = Inr s'" using assms(3) by simp
  then show ?thesis by (rule weak_lock_inv [OF assms(1,2)])
qed


lemma add_ref_frame:
  "add_ref q s = Inr s' \<Longrightarrow> arcs s' = arcs s \<and> weak_arcs s' = weak_arcs s \<and> fresh s' = fresh s"
  by (auto simp: add_ref_def split: option.splits)

lemma add_weak_ref_frame:
  "add_weak_ref q s = Inr s' \<Longrightarrow> arcs s' = arcs s \<and> weak_arcs s' = weak_arcs s \<and> fresh s' = fresh s"
  by (auto simp: add_weak_ref_def split: option.splits)

lemma release_weak_ref_frame:
  "release_weak_ref q s = Inr s' \<Longrightarrow> arcs s' = arcs s \<and> weak_arcs s' = weak_arcs s \<and> fresh s' = fresh s"
  by (auto simp: release_weak_ref_def delete_this_def Let_def split: option.splits if_splits)

lemma release_ref_frame:
  "release_ref q s = Inr s' \<Longrightarrow> arcs s' = arcs s \<and> weak_arcs s' = weak_arcs s \<and> fresh s' = fresh s"
  by (auto simp: release_ref_def Let_def split: option.splits if_splits
           dest: release_weak_ref_frame)

lemma reset_frame:
  "(case mine of None \<Rightarrow> Inr s | Some p \<Rightarrow> release_ref p s) = Inr s'
     \<Longrightarrow> arcs s' = arcs s \<and> weak_arcs s' = weak_arcs s \<and> fresh s' = fresh s"
  by (cases mine) (auto dest: release_ref_frame)

lemma weak_reset_frame:
  "(case mine of None \<Rightarrow> Inr s | Some p \<Rightarrow> release_weak_ref p s) = Inr s'
     \<Longrightarrow> arcs s' = arcs s \<and> weak_arcs s' = weak_arcs s \<and> fresh s' = fresh s"
  by (cases mine) (auto dest: release_weak_ref_frame)

lemma grows_by_strong:
  "fresh s \<le> fresh s' \<Longrightarrow> dom (arcs s') \<subseteq> insert v (dom (arcs s))
    \<Longrightarrow> dom (weak_arcs s') \<subseteq> dom (weak_arcs s) \<Longrightarrow> grows_by s s'"
  unfolding grows_by_def by blast

lemma grows_by_weak:
  "fresh s \<le> fresh s' \<Longrightarrow> dom (arcs s') \<subseteq> dom (arcs s)
    \<Longrightarrow> dom (weak_arcs s') \<subseteq> insert w (dom (weak_arcs s)) \<Longrightarrow> grows_by s s'"
  unfolding grows_by_def by blast

lemma arc_default_grows: "arc_default v s = Inr s' \<Longrightarrow> grows_by s s'"
  by (rule grows_by_strong [where v=v]) (auto simp: arc_default_def split: option.splits)

lemma arc_make_grows: "arc_make v x s = Inr s' \<Longrightarrow> grows_by s s'"
  by (rule grows_by_strong [where v=v]) (auto simp: arc_make_def split: option.splits)

lemma arc_copy_grows: "arc_copy v u s = Inr s' \<Longrightarrow> grows_by s s'"
  by (rule grows_by_strong [where v=v])
     (auto simp: arc_copy_def Let_def split: option.splits dest: release_ref_frame release_weak_ref_frame add_ref_frame add_weak_ref_frame)

lemma arc_move_grows: "arc_move v u s = Inr s' \<Longrightarrow> grows_by s s'"
  by (rule grows_by_strong [where v=v]) (auto simp: arc_move_def split: option.splits if_splits)

lemma arc_dtor_grows: "arc_dtor v s = Inr s' \<Longrightarrow> grows_by s s'"
  by (rule grows_by_strong [where v=v])
     (auto simp: arc_dtor_def split: option.splits sum.splits dest: release_ref_frame release_weak_ref_frame add_ref_frame add_weak_ref_frame)

lemma arc_assign_grows: "arc_assign v u s = Inr s' \<Longrightarrow> grows_by s s'"
  by (rule grows_by_strong [where v=v])
     (auto simp: arc_assign_def Let_def split: option.splits sum.splits if_splits
           dest!: release_ref_frame release_weak_ref_frame add_ref_frame add_weak_ref_frame)

lemma arc_move_assign_grows: "arc_move_assign v u s = Inr s' \<Longrightarrow> grows_by s s'"
  by (rule grows_by_strong [where v=v])
     (auto simp: arc_move_assign_def split: option.splits sum.splits if_splits
           dest: release_ref_frame release_weak_ref_frame add_ref_frame add_weak_ref_frame)

lemma weak_default_grows: "weak_default w s = Inr s' \<Longrightarrow> grows_by s s'"
  by (rule grows_by_weak [where w=w]) (auto simp: weak_default_def split: option.splits)

lemma weak_from_arc_grows: "weak_from_arc w v s = Inr s' \<Longrightarrow> grows_by s s'"
  by (rule grows_by_weak [where w=w])
     (auto simp: weak_from_arc_def Let_def split: option.splits dest: release_ref_frame release_weak_ref_frame add_ref_frame add_weak_ref_frame)

lemma weak_copy_grows: "weak_copy w u s = Inr s' \<Longrightarrow> grows_by s s'"
  by (rule grows_by_weak [where w=w])
     (auto simp: weak_copy_def Let_def split: option.splits dest: release_ref_frame release_weak_ref_frame add_ref_frame add_weak_ref_frame)

lemma weak_move_grows: "weak_move w u s = Inr s' \<Longrightarrow> grows_by s s'"
  by (rule grows_by_weak [where w=w]) (auto simp: weak_move_def split: option.splits if_splits)

lemma weak_dtor_grows: "weak_dtor w s = Inr s' \<Longrightarrow> grows_by s s'"
  by (rule grows_by_weak [where w=w])
     (auto simp: weak_dtor_def split: option.splits sum.splits dest: release_ref_frame release_weak_ref_frame add_ref_frame add_weak_ref_frame)

lemma weak_assign_grows: "weak_assign w u s = Inr s' \<Longrightarrow> grows_by s s'"
  by (rule grows_by_weak [where w=w])
     (auto simp: weak_assign_def Let_def split: option.splits sum.splits if_splits
           dest!: release_ref_frame release_weak_ref_frame add_ref_frame add_weak_ref_frame)

lemma weak_move_assign_grows: "weak_move_assign w u s = Inr s' \<Longrightarrow> grows_by s s'"
  by (rule grows_by_weak [where w=w])
     (auto simp: weak_move_assign_def split: option.splits sum.splits if_splits
           dest: release_ref_frame release_weak_ref_frame add_ref_frame add_weak_ref_frame)

lemma weak_lock_grows: "weak_lock v w s = Inr s' \<Longrightarrow> grows_by s s'"
  by (rule grows_by_strong [where v=v])
     (auto simp: weak_lock_def arc_default_def arc_from_block_def Let_def
           split: option.splits sum.splits if_splits dest: release_ref_frame release_weak_ref_frame add_ref_frame add_weak_ref_frame)


lemma step_grows:
  assumes "step c s = Inr s'"
  shows "grows_by s s'"
proof (cases c)
  case (ArcDefault v)
  then have "arc_default v s = Inr s'" using assms by simp
  then show ?thesis by (rule arc_default_grows)
next
  case (ArcMake v x)
  then have "arc_make v x s = Inr s'" using assms by simp
  then show ?thesis by (rule arc_make_grows)
next
  case (ArcCopy v u)
  then have "arc_copy v u s = Inr s'" using assms by simp
  then show ?thesis by (rule arc_copy_grows)
next
  case (ArcMove v u)
  then have "arc_move v u s = Inr s'" using assms by simp
  then show ?thesis by (rule arc_move_grows)
next
  case (ArcDtor v)
  then have "arc_dtor v s = Inr s'" using assms by simp
  then show ?thesis by (rule arc_dtor_grows)
next
  case (ArcAssign v u)
  then have "arc_assign v u s = Inr s'" using assms by simp
  then show ?thesis by (rule arc_assign_grows)
next
  case (ArcMoveAssign v u)
  then have "arc_move_assign v u s = Inr s'" using assms by simp
  then show ?thesis by (rule arc_move_assign_grows)
next
  case (WeakDefault w)
  then have "weak_default w s = Inr s'" using assms by simp
  then show ?thesis by (rule weak_default_grows)
next
  case (WeakFromArc w v)
  then have "weak_from_arc w v s = Inr s'" using assms by simp
  then show ?thesis by (rule weak_from_arc_grows)
next
  case (WeakCopy w u)
  then have "weak_copy w u s = Inr s'" using assms by simp
  then show ?thesis by (rule weak_copy_grows)
next
  case (WeakMove w u)
  then have "weak_move w u s = Inr s'" using assms by simp
  then show ?thesis by (rule weak_move_grows)
next
  case (WeakDtor w)
  then have "weak_dtor w s = Inr s'" using assms by simp
  then show ?thesis by (rule weak_dtor_grows)
next
  case (WeakAssign w u)
  then have "weak_assign w u s = Inr s'" using assms by simp
  then show ?thesis by (rule weak_assign_grows)
next
  case (WeakMoveAssign w u)
  then have "weak_move_assign w u s = Inr s'" using assms by simp
  then show ?thesis by (rule weak_move_assign_grows)
next
  case (WeakLock v w)
  then have "weak_lock v w s = Inr s'" using assms by simp
  then show ?thesis by (rule weak_lock_grows)
qed

lemma card_dom_grow:
  assumes "finite A" and "B \<subseteq> insert v A"
  shows "card B \<le> Suc (card A)"
proof -
  have "card B \<le> card (insert v A)" using assms by (intro card_mono) simp_all
  also have "\<dots> \<le> Suc (card A)" using assms(1) by (simp add: card_insert_if)
  finally show ?thesis .
qed

lemma grows_handles:
  assumes "finite (dom (arcs s))" and "finite (dom (weak_arcs s))" and "grows_by s s'"
  shows "handles s' \<le> Suc (handles s)"
proof -
  consider v where "dom (arcs s') \<subseteq> insert v (dom (arcs s))"
        "dom (weak_arcs s') \<subseteq> dom (weak_arcs s)"
    | w where "dom (arcs s') \<subseteq> dom (arcs s)"
        "dom (weak_arcs s') \<subseteq> insert w (dom (weak_arcs s))"
    using assms(3) unfolding grows_by_def by blast
  then show ?thesis
  proof cases
    case 1
    have "card (dom (arcs s')) \<le> Suc (card (dom (arcs s)))"
      by (rule card_dom_grow [OF assms(1) 1(1)])
    moreover have "card (dom (weak_arcs s')) \<le> card (dom (weak_arcs s))"
      by (rule card_mono [OF assms(2) 1(2)])
    ultimately show ?thesis by (simp add: handles_def)
  next
    case 2
    have "card (dom (weak_arcs s')) \<le> Suc (card (dom (weak_arcs s)))"
      by (rule card_dom_grow [OF assms(2) 2(2)])
    moreover have "card (dom (arcs s')) \<le> card (dom (arcs s))"
      by (rule card_mono [OF assms(1) 2(1)])
    ultimately show ?thesis by (simp add: handles_def)
  qed
qed

lemma inv_init: "state_inv init"
  by (simp add: state_inv_def init_def block_ok_def owners_def)

lemma handles_init: "handles init = 0"
  by (simp add: handles_def init_def)

lemma run_inv:
  assumes "state_inv s" and "handles s + length cs < 2 ^ 64" and "run cs s = Inr s'"
  shows "state_inv s' \<and> handles s' \<le> handles s + length cs \<and> fresh s \<le> fresh s'"
  using assms
proof (induction cs arbitrary: s)
  case Nil
  then show ?case by simp
next
  case (Cons c cs)
  obtain s1 where s1: "step c s = Inr s1" and r: "run cs s1 = Inr s'"
    using Cons.prems(3) by (auto split: sum.splits)
  have h: "handles s < 2 ^ 64 - 1" using Cons.prems(2) by simp
  have i1: "state_inv s1" by (rule step_inv [OF Cons.prems(1) h s1])
  have g: "grows_by s s1" by (rule step_grows [OF s1])
  have "finite (dom (arcs s))" "finite (dom (weak_arcs s))"
    using Cons.prems(1) by (simp_all add: state_inv_def)
  then have h1: "handles s1 \<le> Suc (handles s)" using g by (rule grows_handles)
  then have "handles s1 + length cs < 2 ^ 64" using Cons.prems(2) by simp
  then have "state_inv s' \<and> handles s' \<le> handles s1 + length cs \<and> fresh s1 \<le> fresh s'"
    using Cons.IH [OF i1 _ r] by simp
  moreover have "fresh s \<le> fresh s1" using g by (simp add: grows_by_def)
  ultimately show ?case using h1 by simp
qed

lemma run_append:
  "run (xs @ ys) s = (case run xs s of Inl e \<Rightarrow> Inl e | Inr s1 \<Rightarrow> run ys s1)"
  by (induction xs arbitrary: s) (simp_all split: sum.splits)

lemma reachable_inv:
  assumes "run cs init = Inr s" and "length cs < 2 ^ 64"
  shows "state_inv s" and "handles s \<le> length cs"
  using run_inv [OF inv_init _ assms(1)] assms(2) by (simp_all add: handles_init)

section \<open>What one operation can change\<close>


lemma add_ref_effect:
  assumes "add_ref q s = Inr s'"
  shows "\<exists>b. blocks s q = Some b \<and> arcs s' = arcs s \<and> weak_arcs s' = weak_arcs s
           \<and> fresh s' = fresh s \<and> trace s' = trace s
           \<and> blocks s' = (blocks s)(q \<mapsto> b\<lparr>cb_ref_count := cb_ref_count b + 1\<rparr>)"
  using assms by (auto simp: add_ref_def split: option.splits)

lemma add_weak_ref_effect:
  assumes "add_weak_ref q s = Inr s'"
  shows "\<exists>b. blocks s q = Some b \<and> arcs s' = arcs s \<and> weak_arcs s' = weak_arcs s
           \<and> fresh s' = fresh s \<and> trace s' = trace s
           \<and> blocks s' = (blocks s)(q \<mapsto> b\<lparr>cb_weak_count := cb_weak_count b + 1\<rparr>)"
  using assms by (auto simp: add_weak_ref_def split: option.splits)

lemma release_weak_ref_effect:
  assumes "release_weak_ref q s = Inr s'"
  shows "\<exists>b. blocks s q = Some b \<and> arcs s' = arcs s \<and> weak_arcs s' = weak_arcs s
           \<and> fresh s' = fresh s
           \<and> (if cb_weak_count b = 1
               then blocks s' = (blocks s)(q := None)
                  \<and> trace s' = trace s @ [ObjectDestroyed q, BlockFreed q]
               else blocks s' = (blocks s)(q \<mapsto> b\<lparr>cb_weak_count := cb_weak_count b - 1\<rparr>)
                  \<and> trace s' = trace s)"
proof -
  obtain b where b: "blocks s q = Some b"
    using assms by (auto simp: release_weak_ref_def split: option.splits)
  show ?thesis using assms b by (auto simp: release_weak_ref_eq [OF b])
qed

lemma release_ref_effect:
  assumes "release_ref q s = Inr s'"
  shows "\<exists>b. blocks s q = Some b \<and> arcs s' = arcs s \<and> weak_arcs s' = weak_arcs s
           \<and> fresh s' = fresh s
           \<and> (if cb_ref_count b = 1 \<and> cb_weak_count b = 1
               then blocks s' = (blocks s)(q := None)
                  \<and> trace s' = trace s @ [ObjectDestroyed q, BlockFreed q]
               else (\<exists>b'. blocks s' = (blocks s)(q \<mapsto> b')) \<and> trace s' = trace s)"
proof -
  obtain b where b: "blocks s q = Some b"
    using assms by (auto simp: release_ref_def split: option.splits)
  show ?thesis using assms b by (auto simp: release_ref_eq [OF b])
qed

lemma arc_default_frees:
  assumes "arc_default v s = Inr s'" and "blocks s p = Some b" and "blocks s' p = None"
  shows "cb_weak_count b = 1 \<and> trace s' = trace s @ [ObjectDestroyed p, BlockFreed p]"
  using assms
  by (auto simp: arc_default_def Let_def split: option.splits sum.splits if_splits
           dest!: release_ref_effect release_weak_ref_effect add_ref_effect add_weak_ref_effect)

lemma arc_make_frees:
  assumes "arc_make v x s = Inr s'" and "blocks s p = Some b" and "blocks s' p = None"
  shows "cb_weak_count b = 1 \<and> trace s' = trace s @ [ObjectDestroyed p, BlockFreed p]"
  using assms
  by (auto simp: arc_make_def Let_def split: option.splits sum.splits if_splits
           dest!: release_ref_effect release_weak_ref_effect add_ref_effect add_weak_ref_effect)

lemma arc_copy_frees:
  assumes "arc_copy v u s = Inr s'" and "blocks s p = Some b" and "blocks s' p = None"
  shows "cb_weak_count b = 1 \<and> trace s' = trace s @ [ObjectDestroyed p, BlockFreed p]"
  using assms
  by (auto simp: arc_copy_def Let_def split: option.splits sum.splits if_splits
           dest!: release_ref_effect release_weak_ref_effect add_ref_effect add_weak_ref_effect)

lemma arc_move_frees:
  assumes "arc_move v u s = Inr s'" and "blocks s p = Some b" and "blocks s' p = None"
  shows "cb_weak_count b = 1 \<and> trace s' = trace s @ [ObjectDestroyed p, BlockFreed p]"
  using assms
  by (auto simp: arc_move_def Let_def split: option.splits sum.splits if_splits
           dest!: release_ref_effect release_weak_ref_effect add_ref_effect add_weak_ref_effect)

lemma arc_dtor_frees:
  assumes "arc_dtor v s = Inr s'" and "blocks s p = Some b" and "blocks s' p = None"
  shows "cb_weak_count b = 1 \<and> trace s' = trace s @ [ObjectDestroyed p, BlockFreed p]"
  using assms
  by (auto simp: arc_dtor_def Let_def split: option.splits sum.splits if_splits
           dest!: release_ref_effect release_weak_ref_effect add_ref_effect add_weak_ref_effect)

lemma arc_assign_frees:
  assumes "arc_assign v u s = Inr s'" and "blocks s p = Some b" and "blocks s' p = None"
  shows "cb_weak_count b = 1 \<and> trace s' = trace s @ [ObjectDestroyed p, BlockFreed p]"
  using assms
  by (auto simp: arc_assign_def Let_def split: option.splits sum.splits if_splits
           dest!: release_ref_effect release_weak_ref_effect add_ref_effect add_weak_ref_effect)

lemma arc_move_assign_frees:
  assumes "arc_move_assign v u s = Inr s'" and "blocks s p = Some b" and "blocks s' p = None"
  shows "cb_weak_count b = 1 \<and> trace s' = trace s @ [ObjectDestroyed p, BlockFreed p]"
  using assms
  by (auto simp: arc_move_assign_def Let_def split: option.splits sum.splits if_splits
           dest!: release_ref_effect release_weak_ref_effect add_ref_effect add_weak_ref_effect)

lemma weak_default_frees:
  assumes "weak_default w s = Inr s'" and "blocks s p = Some b" and "blocks s' p = None"
  shows "cb_weak_count b = 1 \<and> trace s' = trace s @ [ObjectDestroyed p, BlockFreed p]"
  using assms
  by (auto simp: weak_default_def Let_def split: option.splits sum.splits if_splits
           dest!: release_ref_effect release_weak_ref_effect add_ref_effect add_weak_ref_effect)

lemma weak_from_arc_frees:
  assumes "weak_from_arc w v s = Inr s'" and "blocks s p = Some b" and "blocks s' p = None"
  shows "cb_weak_count b = 1 \<and> trace s' = trace s @ [ObjectDestroyed p, BlockFreed p]"
  using assms
  by (auto simp: weak_from_arc_def Let_def split: option.splits sum.splits if_splits
           dest!: release_ref_effect release_weak_ref_effect add_ref_effect add_weak_ref_effect)

lemma weak_copy_frees:
  assumes "weak_copy w u s = Inr s'" and "blocks s p = Some b" and "blocks s' p = None"
  shows "cb_weak_count b = 1 \<and> trace s' = trace s @ [ObjectDestroyed p, BlockFreed p]"
  using assms
  by (auto simp: weak_copy_def Let_def split: option.splits sum.splits if_splits
           dest!: release_ref_effect release_weak_ref_effect add_ref_effect add_weak_ref_effect)

lemma weak_move_frees:
  assumes "weak_move w u s = Inr s'" and "blocks s p = Some b" and "blocks s' p = None"
  shows "cb_weak_count b = 1 \<and> trace s' = trace s @ [ObjectDestroyed p, BlockFreed p]"
  using assms
  by (auto simp: weak_move_def Let_def split: option.splits sum.splits if_splits
           dest!: release_ref_effect release_weak_ref_effect add_ref_effect add_weak_ref_effect)

lemma weak_dtor_frees:
  assumes "weak_dtor w s = Inr s'" and "blocks s p = Some b" and "blocks s' p = None"
  shows "cb_weak_count b = 1 \<and> trace s' = trace s @ [ObjectDestroyed p, BlockFreed p]"
  using assms
  by (auto simp: weak_dtor_def Let_def split: option.splits sum.splits if_splits
           dest!: release_ref_effect release_weak_ref_effect add_ref_effect add_weak_ref_effect)

lemma weak_assign_frees:
  assumes "weak_assign w u s = Inr s'" and "blocks s p = Some b" and "blocks s' p = None"
  shows "cb_weak_count b = 1 \<and> trace s' = trace s @ [ObjectDestroyed p, BlockFreed p]"
  using assms
  by (auto simp: weak_assign_def Let_def split: option.splits sum.splits if_splits
           dest!: release_ref_effect release_weak_ref_effect add_ref_effect add_weak_ref_effect)

lemma weak_move_assign_frees:
  assumes "weak_move_assign w u s = Inr s'" and "blocks s p = Some b" and "blocks s' p = None"
  shows "cb_weak_count b = 1 \<and> trace s' = trace s @ [ObjectDestroyed p, BlockFreed p]"
  using assms
  by (auto simp: weak_move_assign_def Let_def split: option.splits sum.splits if_splits
           dest!: release_ref_effect release_weak_ref_effect add_ref_effect add_weak_ref_effect)

lemma weak_lock_frees:
  assumes "weak_lock v w s = Inr s'" and "blocks s p = Some b" and "blocks s' p = None"
  shows "cb_weak_count b = 1 \<and> trace s' = trace s @ [ObjectDestroyed p, BlockFreed p]"
  using assms
  by (auto simp: weak_lock_def arc_default_def arc_from_block_def ref_count_def Let_def split: option.splits sum.splits if_splits
           dest!: release_ref_effect release_weak_ref_effect add_ref_effect add_weak_ref_effect)

lemma step_frees:
  assumes "step c s = Inr s'" and "blocks s p = Some b" and "blocks s' p = None"
  shows "cb_weak_count b = 1 \<and> trace s' = trace s @ [ObjectDestroyed p, BlockFreed p]"
proof (cases c)
  case (ArcDefault v)
  then have "arc_default v s = Inr s'" using assms(1) by simp
  then show ?thesis using assms(2,3) by (rule arc_default_frees)
next
  case (ArcMake v x)
  then have "arc_make v x s = Inr s'" using assms(1) by simp
  then show ?thesis using assms(2,3) by (rule arc_make_frees)
next
  case (ArcCopy v u)
  then have "arc_copy v u s = Inr s'" using assms(1) by simp
  then show ?thesis using assms(2,3) by (rule arc_copy_frees)
next
  case (ArcMove v u)
  then have "arc_move v u s = Inr s'" using assms(1) by simp
  then show ?thesis using assms(2,3) by (rule arc_move_frees)
next
  case (ArcDtor v)
  then have "arc_dtor v s = Inr s'" using assms(1) by simp
  then show ?thesis using assms(2,3) by (rule arc_dtor_frees)
next
  case (ArcAssign v u)
  then have "arc_assign v u s = Inr s'" using assms(1) by simp
  then show ?thesis using assms(2,3) by (rule arc_assign_frees)
next
  case (ArcMoveAssign v u)
  then have "arc_move_assign v u s = Inr s'" using assms(1) by simp
  then show ?thesis using assms(2,3) by (rule arc_move_assign_frees)
next
  case (WeakDefault w)
  then have "weak_default w s = Inr s'" using assms(1) by simp
  then show ?thesis using assms(2,3) by (rule weak_default_frees)
next
  case (WeakFromArc w v)
  then have "weak_from_arc w v s = Inr s'" using assms(1) by simp
  then show ?thesis using assms(2,3) by (rule weak_from_arc_frees)
next
  case (WeakCopy w u)
  then have "weak_copy w u s = Inr s'" using assms(1) by simp
  then show ?thesis using assms(2,3) by (rule weak_copy_frees)
next
  case (WeakMove w u)
  then have "weak_move w u s = Inr s'" using assms(1) by simp
  then show ?thesis using assms(2,3) by (rule weak_move_frees)
next
  case (WeakDtor w)
  then have "weak_dtor w s = Inr s'" using assms(1) by simp
  then show ?thesis using assms(2,3) by (rule weak_dtor_frees)
next
  case (WeakAssign w u)
  then have "weak_assign w u s = Inr s'" using assms(1) by simp
  then show ?thesis using assms(2,3) by (rule weak_assign_frees)
next
  case (WeakMoveAssign w u)
  then have "weak_move_assign w u s = Inr s'" using assms(1) by simp
  then show ?thesis using assms(2,3) by (rule weak_move_assign_frees)
next
  case (WeakLock v w)
  then have "weak_lock v w s = Inr s'" using assms(1) by simp
  then show ?thesis using assms(2,3) by (rule weak_lock_frees)
qed

lemma arc_default_origin:
  assumes "arc_default v s = Inr s'" and "arcs s' y = Some (Some p)"
  shows "(\<exists>u. arcs s u = Some (Some p)) \<or> p = fresh s
       \<or> (\<exists>b. blocks s p = Some b \<and> cb_ref_count b \<noteq> 0)"
  using assms
  by (auto simp: arc_default_def Let_def split: option.splits sum.splits if_splits
           dest!: release_ref_effect release_weak_ref_effect add_ref_effect add_weak_ref_effect)

lemma arc_make_origin:
  assumes "arc_make v x s = Inr s'" and "arcs s' y = Some (Some p)"
  shows "(\<exists>u. arcs s u = Some (Some p)) \<or> p = fresh s
       \<or> (\<exists>b. blocks s p = Some b \<and> cb_ref_count b \<noteq> 0)"
  using assms
  by (auto simp: arc_make_def Let_def split: option.splits sum.splits if_splits
           dest!: release_ref_effect release_weak_ref_effect add_ref_effect add_weak_ref_effect)

lemma arc_copy_origin:
  assumes "arc_copy v u s = Inr s'" and "arcs s' y = Some (Some p)"
  shows "(\<exists>u. arcs s u = Some (Some p)) \<or> p = fresh s
       \<or> (\<exists>b. blocks s p = Some b \<and> cb_ref_count b \<noteq> 0)"
  using assms
  by (auto simp: arc_copy_def Let_def split: option.splits sum.splits if_splits
           dest!: release_ref_effect release_weak_ref_effect add_ref_effect add_weak_ref_effect)

lemma arc_move_origin:
  assumes "arc_move v u s = Inr s'" and "arcs s' y = Some (Some p)"
  shows "(\<exists>u. arcs s u = Some (Some p)) \<or> p = fresh s
       \<or> (\<exists>b. blocks s p = Some b \<and> cb_ref_count b \<noteq> 0)"
  using assms
  by (auto simp: arc_move_def Let_def split: option.splits sum.splits if_splits
           dest!: release_ref_effect release_weak_ref_effect add_ref_effect add_weak_ref_effect)

lemma arc_dtor_origin:
  assumes "arc_dtor v s = Inr s'" and "arcs s' y = Some (Some p)"
  shows "(\<exists>u. arcs s u = Some (Some p)) \<or> p = fresh s
       \<or> (\<exists>b. blocks s p = Some b \<and> cb_ref_count b \<noteq> 0)"
  using assms
  by (auto simp: arc_dtor_def Let_def split: option.splits sum.splits if_splits
           dest!: release_ref_effect release_weak_ref_effect add_ref_effect add_weak_ref_effect)

lemma arc_assign_origin:
  assumes "arc_assign v u s = Inr s'" and "arcs s' y = Some (Some p)"
  shows "(\<exists>u. arcs s u = Some (Some p)) \<or> p = fresh s
       \<or> (\<exists>b. blocks s p = Some b \<and> cb_ref_count b \<noteq> 0)"
  using assms
  by (auto simp: arc_assign_def Let_def split: option.splits sum.splits if_splits
           dest!: release_ref_effect release_weak_ref_effect add_ref_effect add_weak_ref_effect)

lemma arc_move_assign_origin:
  assumes "arc_move_assign v u s = Inr s'" and "arcs s' y = Some (Some p)"
  shows "(\<exists>u. arcs s u = Some (Some p)) \<or> p = fresh s
       \<or> (\<exists>b. blocks s p = Some b \<and> cb_ref_count b \<noteq> 0)"
  using assms
  by (auto simp: arc_move_assign_def Let_def split: option.splits sum.splits if_splits
           dest!: release_ref_effect release_weak_ref_effect add_ref_effect add_weak_ref_effect)

lemma weak_default_origin:
  assumes "weak_default w s = Inr s'" and "arcs s' y = Some (Some p)"
  shows "(\<exists>u. arcs s u = Some (Some p)) \<or> p = fresh s
       \<or> (\<exists>b. blocks s p = Some b \<and> cb_ref_count b \<noteq> 0)"
  using assms
  by (auto simp: weak_default_def Let_def split: option.splits sum.splits if_splits
           dest!: release_ref_effect release_weak_ref_effect add_ref_effect add_weak_ref_effect)

lemma weak_from_arc_origin:
  assumes "weak_from_arc w v s = Inr s'" and "arcs s' y = Some (Some p)"
  shows "(\<exists>u. arcs s u = Some (Some p)) \<or> p = fresh s
       \<or> (\<exists>b. blocks s p = Some b \<and> cb_ref_count b \<noteq> 0)"
  using assms
  by (auto simp: weak_from_arc_def Let_def split: option.splits sum.splits if_splits
           dest!: release_ref_effect release_weak_ref_effect add_ref_effect add_weak_ref_effect)

lemma weak_copy_origin:
  assumes "weak_copy w u s = Inr s'" and "arcs s' y = Some (Some p)"
  shows "(\<exists>u. arcs s u = Some (Some p)) \<or> p = fresh s
       \<or> (\<exists>b. blocks s p = Some b \<and> cb_ref_count b \<noteq> 0)"
  using assms
  by (auto simp: weak_copy_def Let_def split: option.splits sum.splits if_splits
           dest!: release_ref_effect release_weak_ref_effect add_ref_effect add_weak_ref_effect)

lemma weak_move_origin:
  assumes "weak_move w u s = Inr s'" and "arcs s' y = Some (Some p)"
  shows "(\<exists>u. arcs s u = Some (Some p)) \<or> p = fresh s
       \<or> (\<exists>b. blocks s p = Some b \<and> cb_ref_count b \<noteq> 0)"
  using assms
  by (auto simp: weak_move_def Let_def split: option.splits sum.splits if_splits
           dest!: release_ref_effect release_weak_ref_effect add_ref_effect add_weak_ref_effect)

lemma weak_dtor_origin:
  assumes "weak_dtor w s = Inr s'" and "arcs s' y = Some (Some p)"
  shows "(\<exists>u. arcs s u = Some (Some p)) \<or> p = fresh s
       \<or> (\<exists>b. blocks s p = Some b \<and> cb_ref_count b \<noteq> 0)"
  using assms
  by (auto simp: weak_dtor_def Let_def split: option.splits sum.splits if_splits
           dest!: release_ref_effect release_weak_ref_effect add_ref_effect add_weak_ref_effect)

lemma weak_assign_origin:
  assumes "weak_assign w u s = Inr s'" and "arcs s' y = Some (Some p)"
  shows "(\<exists>u. arcs s u = Some (Some p)) \<or> p = fresh s
       \<or> (\<exists>b. blocks s p = Some b \<and> cb_ref_count b \<noteq> 0)"
  using assms
  by (auto simp: weak_assign_def Let_def split: option.splits sum.splits if_splits
           dest!: release_ref_effect release_weak_ref_effect add_ref_effect add_weak_ref_effect)

lemma weak_move_assign_origin:
  assumes "weak_move_assign w u s = Inr s'" and "arcs s' y = Some (Some p)"
  shows "(\<exists>u. arcs s u = Some (Some p)) \<or> p = fresh s
       \<or> (\<exists>b. blocks s p = Some b \<and> cb_ref_count b \<noteq> 0)"
  using assms
  by (auto simp: weak_move_assign_def Let_def split: option.splits sum.splits if_splits
           dest!: release_ref_effect release_weak_ref_effect add_ref_effect add_weak_ref_effect)

lemma weak_lock_origin:
  assumes "weak_lock v w s = Inr s'" and "arcs s' y = Some (Some p)"
  shows "(\<exists>u. arcs s u = Some (Some p)) \<or> p = fresh s
       \<or> (\<exists>b. blocks s p = Some b \<and> cb_ref_count b \<noteq> 0)"
  using assms
  by (auto simp: weak_lock_def arc_default_def arc_from_block_def ref_count_def Let_def split: option.splits sum.splits if_splits
           dest!: release_ref_effect release_weak_ref_effect add_ref_effect add_weak_ref_effect)

lemma step_origin:
  assumes "step c s = Inr s'" and "arcs s' y = Some (Some p)"
  shows "(\<exists>u. arcs s u = Some (Some p)) \<or> p = fresh s
       \<or> (\<exists>b. blocks s p = Some b \<and> cb_ref_count b \<noteq> 0)"
proof (cases c)
  case (ArcDefault v)
  then have "arc_default v s = Inr s'" using assms(1) by simp
  then show ?thesis using assms(2) by (rule arc_default_origin)
next
  case (ArcMake v x)
  then have "arc_make v x s = Inr s'" using assms(1) by simp
  then show ?thesis using assms(2) by (rule arc_make_origin)
next
  case (ArcCopy v u)
  then have "arc_copy v u s = Inr s'" using assms(1) by simp
  then show ?thesis using assms(2) by (rule arc_copy_origin)
next
  case (ArcMove v u)
  then have "arc_move v u s = Inr s'" using assms(1) by simp
  then show ?thesis using assms(2) by (rule arc_move_origin)
next
  case (ArcDtor v)
  then have "arc_dtor v s = Inr s'" using assms(1) by simp
  then show ?thesis using assms(2) by (rule arc_dtor_origin)
next
  case (ArcAssign v u)
  then have "arc_assign v u s = Inr s'" using assms(1) by simp
  then show ?thesis using assms(2) by (rule arc_assign_origin)
next
  case (ArcMoveAssign v u)
  then have "arc_move_assign v u s = Inr s'" using assms(1) by simp
  then show ?thesis using assms(2) by (rule arc_move_assign_origin)
next
  case (WeakDefault w)
  then have "weak_default w s = Inr s'" using assms(1) by simp
  then show ?thesis using assms(2) by (rule weak_default_origin)
next
  case (WeakFromArc w v)
  then have "weak_from_arc w v s = Inr s'" using assms(1) by simp
  then show ?thesis using assms(2) by (rule weak_from_arc_origin)
next
  case (WeakCopy w u)
  then have "weak_copy w u s = Inr s'" using assms(1) by simp
  then show ?thesis using assms(2) by (rule weak_copy_origin)
next
  case (WeakMove w u)
  then have "weak_move w u s = Inr s'" using assms(1) by simp
  then show ?thesis using assms(2) by (rule weak_move_origin)
next
  case (WeakDtor w)
  then have "weak_dtor w s = Inr s'" using assms(1) by simp
  then show ?thesis using assms(2) by (rule weak_dtor_origin)
next
  case (WeakAssign w u)
  then have "weak_assign w u s = Inr s'" using assms(1) by simp
  then show ?thesis using assms(2) by (rule weak_assign_origin)
next
  case (WeakMoveAssign w u)
  then have "weak_move_assign w u s = Inr s'" using assms(1) by simp
  then show ?thesis using assms(2) by (rule weak_move_assign_origin)
next
  case (WeakLock v w)
  then have "weak_lock v w s = Inr s'" using assms(1) by simp
  then show ?thesis using assms(2) by (rule weak_lock_origin)
qed

section \<open>Consequences of the invariant\<close>


lemma owners_empty_iff: "owners m p = {} \<longleftrightarrow> (\<forall>v. m v \<noteq> Some (Some p))"
  by (auto simp: owners_def)

lemma card_owners_zero_iff:
  "finite (dom m) \<Longrightarrow> card (owners m p) = 0 \<longleftrightarrow> (\<forall>v. m v \<noteq> Some (Some p))"
  using finite_owners [of m p] by (simp add: owners_empty_iff)

lemma inv_live_iff:
  assumes "state_inv s" and "p < fresh s"
  shows "blocks s p = None \<longleftrightarrow>
           (\<forall>v. arcs s v \<noteq> Some (Some p)) \<and> (\<forall>w. weak_arcs s w \<noteq> Some (Some p))"
proof -
  have fin: "finite (dom (arcs s))" "finite (dom (weak_arcs s))"
    using assms(1) by (simp_all add: state_inv_def)
  have ok: "block_ok p (fresh s) (card (owners (arcs s) p)) (card (owners (weak_arcs s) p))
              (trace s) (blocks s p)"
    by (rule inv_block [OF assms(1)])
  show ?thesis
  proof (cases "blocks s p")
    case None
    then show ?thesis using ok fin by (simp add: block_ok_def card_owners_zero_iff)
  next
    case (Some b)
    have "card (owners (arcs s) p) \<noteq> 0 \<or> card (owners (weak_arcs s) p) \<noteq> 0"
      using ok Some by (auto simp: block_ok_def split: if_splits)
    then show ?thesis using Some fin by (auto simp: card_owners_zero_iff)
  qed
qed

lemma inv_counts:
  assumes "state_inv s" and "blocks s p = Some b"
  shows "unat (cb_ref_count b) = card {v. arcs s v = Some (Some p)}"
    and "unat (cb_weak_count b) = card {w. weak_arcs s w = Some (Some p)}
           + (if cb_ref_count b = 0 then 0 else 1)"
    and "cb_weak_count b \<noteq> 0" and "p < fresh s"
    and "BlockFreed p \<notin> set (trace s)" and "ObjectDestroyed p \<notin> set (trace s)"
proof -
  have ok: "block_ok p (fresh s) (card (owners (arcs s) p)) (card (owners (weak_arcs s) p))
              (trace s) (Some b)"
    using inv_block [OF assms(1), of p] assms(2) by simp
  show r: "unat (cb_ref_count b) = card {v. arcs s v = Some (Some p)}"
    using ok by (simp add: block_ok_def owners_def)
  have z: "(cb_ref_count b = 0) = (card (owners (arcs s) p) = 0)"
    using ok by (auto simp: block_ok_def unat_eq_zero)
  show "unat (cb_weak_count b) = card {w. weak_arcs s w = Some (Some p)}
           + (if cb_ref_count b = 0 then 0 else 1)"
    using ok unfolding z by (simp add: block_ok_def owners_def)
  show "cb_weak_count b \<noteq> 0" using ok by (auto simp: block_ok_def)
  show "p < fresh s" using ok by (simp add: block_ok_def)
  show "BlockFreed p \<notin> set (trace s)"
    using ok by (simp add: block_ok_def count_list_0_iff)
  show "ObjectDestroyed p \<notin> set (trace s)"
    using ok by (simp add: block_ok_def count_list_0_iff)
qed

lemma inv_freed_count:
  assumes "state_inv s"
  shows "count_list (trace s) (BlockFreed p) = (if p < fresh s \<and> blocks s p = None then 1 else 0)"
    and "count_list (trace s) (ObjectDestroyed p) = (if p < fresh s \<and> blocks s p = None then 1 else 0)"
  using inv_block [OF assms, of p]
  by (auto simp: block_ok_def split: option.splits)

lemma step_no_resurrect:
  assumes "state_inv s" and "step c s = Inr s'" and "p < fresh s"
      and "\<forall>v. arcs s v \<noteq> Some (Some p)"
  shows "\<forall>v. arcs s' v \<noteq> Some (Some p)"
proof (intro allI notI)
  fix y assume y: "arcs s' y = Some (Some p)"
  have fin: "finite (dom (arcs s))" using assms(1) by (simp add: state_inv_def)
  from step_origin [OF assms(2) y] assms(3,4)
  obtain b where b: "blocks s p = Some b" and nz: "cb_ref_count b \<noteq> 0" by auto
  have "unat (cb_ref_count b) = card {v. arcs s v = Some (Some p)}"
    by (rule inv_counts(1) [OF assms(1) b])
  moreover have "{v. arcs s v = Some (Some p)} = {}" using assms(4) by auto
  ultimately have "cb_ref_count b = 0" by (simp add: unat_eq_zero)
  then show False using nz by simp
qed

lemma run_no_resurrect:
  assumes "state_inv s" and "handles s + length cs < 2 ^ 64" and "run cs s = Inr s'"
      and "p < fresh s" and "\<forall>v. arcs s v \<noteq> Some (Some p)"
  shows "\<forall>v. arcs s' v \<noteq> Some (Some p)"
  using assms
proof (induction cs arbitrary: s)
  case Nil
  then show ?case by simp
next
  case (Cons c cs)
  obtain s1 where s1: "step c s = Inr s1" and r: "run cs s1 = Inr s'"
    using Cons.prems(3) by (auto split: sum.splits)
  have h: "handles s < 2 ^ 64 - 1" using Cons.prems(2) by simp
  have i1: "state_inv s1" by (rule step_inv [OF Cons.prems(1) h s1])
  have g: "grows_by s s1" by (rule step_grows [OF s1])
  have "finite (dom (arcs s))" "finite (dom (weak_arcs s))"
    using Cons.prems(1) by (simp_all add: state_inv_def)
  then have "handles s1 \<le> Suc (handles s)" using g by (rule grows_handles)
  then have h1: "handles s1 + length cs < 2 ^ 64" using Cons.prems(2) by simp
  have f1: "p < fresh s1" using g Cons.prems(4) by (simp add: grows_by_def)
  have n1: "\<forall>v. arcs s1 v \<noteq> Some (Some p)"
    by (rule step_no_resurrect [OF Cons.prems(1) s1 Cons.prems(4,5)])
  show ?case by (rule Cons.IH [OF i1 h1 r f1 n1])
qed

section \<open>Preservation of the array invariant\<close>

lemma arr_inv_arcs_upd:
  assumes "arr_state_inv s" and "finite (dom m)"
      and "\<forall>p. card (owners m p) = card (owners (arr_arcs s) p)"
  shows "arr_state_inv (s\<lparr>arr_arcs := m\<rparr>)"
  using assms by (simp add: arr_state_inv_def)

lemma arr_inv_weak_arcs_upd:
  assumes "arr_state_inv s" and "finite (dom m)"
      and "\<forall>p. card (owners m p) = card (owners (arr_weak_arcs s) p)"
  shows "arr_state_inv (s\<lparr>arr_weak_arcs := m\<rparr>)"
  using assms by (simp add: arr_state_inv_def)

lemma arr_block_ok_add_ref:
  assumes "arr_block_ok p fr ns nw tr (Some b) bf" and "0 < ns" and "ns < 2 ^ 64 - 1"
  shows "arr_block_ok p fr (ns + 1) nw tr (Some (b\<lparr>acb_ref_count := acb_ref_count b + 1\<rparr>)) bf"
  using assms by (simp add: arr_block_ok_def unat_plus_one)

lemma arr_block_ok_add_weak_ref:
  assumes "arr_block_ok p fr ns nw tr (Some b) bf"
      and "nw + (if ns = 0 then 0 else 1) < 2 ^ 64 - 1"
  shows "arr_block_ok p fr ns (nw + 1) tr
           (Some (b\<lparr>acb_weak_count := acb_weak_count b + 1\<rparr>)) bf"
proof -
  have w: "unat (acb_weak_count b) = nw + (if ns = 0 then 0 else 1)"
    using assms(1) by (simp add: arr_block_ok_def)
  then have "unat (acb_weak_count b) < 2 ^ 64 - 1" using assms(2) by simp
  then have "unat (acb_weak_count b + 1) = unat (acb_weak_count b) + 1"
    by (rule unat_plus_one)
  then have "unat (acb_weak_count b + 1) = nw + 1 + (if ns = 0 then 0 else 1)"
    using w by simp
  then show ?thesis using assms(1) by (simp add: arr_block_ok_def)
qed

lemma arr_block_ok_release_ref_many:
  assumes "arr_block_ok p fr ns nw tr (Some b) bf" and "acb_ref_count b \<noteq> 1" and "0 < ns"
  shows "arr_block_ok p fr (ns - 1) nw tr
           (Some (b\<lparr>acb_ref_count := acb_ref_count b - 1\<rparr>)) bf"
proof -
  have r: "unat (acb_ref_count b) = ns" using assms(1) by (simp add: arr_block_ok_def)
  have "unat (acb_ref_count b) \<noteq> 1" using assms(2) by (simp add: word_unat_eq_iff)
  then have "1 < ns" using r assms(3) by arith
  moreover have "unat (acb_ref_count b - 1) = ns - 1"
    using r assms(3) by (simp add: unat_minus_one')
  ultimately show ?thesis using assms(1) by (simp add: arr_block_ok_def)
qed

lemma arr_block_ok_last_strong:
  assumes "arr_block_ok p fr ns nw tr (Some b) bf" and "acb_ref_count b = 1"
  shows "ns = 1 \<and> acb_data b = Some (Suc p) \<and> bf \<noteq> None
       \<and> unat (acb_weak_count b) = nw + 1"
proof -
  have r: "unat (acb_ref_count b) = ns" using assms(1) by (simp add: arr_block_ok_def)
  have ns: "ns = 1" using r assms(2) by simp
  show ?thesis using assms(1) ns by (simp add: arr_block_ok_def)
qed

lemma arr_block_ok_release_ref_last:
  assumes "arr_block_ok p fr ns nw tr (Some b) bf" and "acb_ref_count b = 1"
      and "acb_weak_count b \<noteq> 1"
  shows "arr_block_ok p fr (ns - 1) nw (tr @ [BufferFreed (Suc p)])
           (Some (b\<lparr>acb_ref_count := acb_ref_count b - 1, acb_data := None,
                    acb_weak_count := acb_weak_count b - 1\<rparr>)) None"
proof -
  have l: "ns = 1" "unat (acb_weak_count b) = nw + 1"
    using arr_block_ok_last_strong [OF assms(1,2)] by simp_all
  have "unat (acb_weak_count b) \<noteq> 1" using assms(3) by (simp add: word_unat_eq_iff)
  then have nw: "0 < nw" using l(2) by arith
  have "unat (acb_weak_count b - 1) = nw" using l(2) by (simp add: unat_minus_one')
  then show ?thesis using assms(1) assms(2) l(1) nw by (simp add: arr_block_ok_def)
qed

lemma arr_block_ok_release_ref_free:
  assumes "arr_block_ok p fr ns nw tr (Some b) bf" and "acb_ref_count b = 1"
      and "acb_weak_count b = 1"
  shows "arr_block_ok p fr (ns - 1) nw (tr @ [BufferFreed (Suc p), BlockFreed p]) None None"
proof -
  have l: "ns = 1" "unat (acb_weak_count b) = nw + 1"
    using arr_block_ok_last_strong [OF assms(1,2)] by simp_all
  have nw: "nw = 0" using l(2) assms(3) by simp
  show ?thesis using assms(1) l(1) nw by (simp add: arr_block_ok_def)
qed

lemma arr_block_ok_release_weak_many:
  assumes "arr_block_ok p fr ns nw tr (Some b) bf" and "acb_weak_count b \<noteq> 1" and "0 < nw"
  shows "arr_block_ok p fr ns (nw - 1) tr
           (Some (b\<lparr>acb_weak_count := acb_weak_count b - 1\<rparr>)) bf"
proof -
  define k where "k = unat (acb_weak_count b)"
  define e :: nat where "e = (if ns = 0 then 0 else 1)"
  have w: "k = nw + e"
    using assms(1) by (simp add: arr_block_ok_def k_def e_def)
  have n1: "k \<noteq> 1" using assms(2) by (simp add: word_unat_eq_iff k_def)
  have m: "unat (acb_weak_count b - 1) = k - 1"
    using w assms(3) by (simp add: unat_minus_one' k_def)
  have pos: "0 < k - 1" using w n1 assms(3) by linarith
  have eq: "k - 1 = nw - 1 + e" using w assms(3) by linarith
  have c3: "unat (acb_weak_count b - 1) = nw - 1 + (if ns = 0 then 0 else 1)"
    using m eq by (simp add: e_def)
  have c4: "0 < unat (acb_weak_count b - 1)" using m pos by simp
  show ?thesis using assms(1) c3 c4 by (simp add: arr_block_ok_def)
qed

lemma arr_block_ok_last_weak:
  assumes "arr_block_ok p fr ns nw tr (Some b) bf" and "acb_weak_count b = 1" and "0 < nw"
  shows "nw = 1 \<and> ns = 0 \<and> acb_data b = None"
proof -
  have w: "unat (acb_weak_count b) = nw + (if ns = 0 then 0 else 1)"
    using assms(1) by (simp add: arr_block_ok_def)
  have w1: "unat (acb_weak_count b) = 1" using assms(2) by simp
  have "nw = 1 \<and> ns = 0" using w w1 assms(3) by (cases "ns = 0") auto
  then show ?thesis using assms(1) by (simp add: arr_block_ok_def)
qed

lemma arr_block_ok_release_weak_free:
  assumes "arr_block_ok p fr ns nw tr (Some b) bf" and "acb_weak_count b = 1" and "0 < nw"
  shows "arr_block_ok p fr ns (nw - 1) (tr @ [BlockFreed p]) None bf"
proof -
  have l: "nw = 1" "ns = 0" using arr_block_ok_last_weak [OF assms] by simp_all
  show ?thesis using assms(1) l by (simp add: arr_block_ok_def)
qed

lemma arr_block_ok_trace_other:
  assumes "arr_block_ok p fr ns nw tr bo bf" and "BlockFreed p \<notin> set es"
      and "BufferFreed (Suc p) \<notin> set es"
  shows "arr_block_ok p fr ns nw (tr @ es) bo bf"
proof -
  have "count_list es (BlockFreed p) = 0" "count_list es (BufferFreed (Suc p)) = 0"
    using assms(2,3) by (simp_all add: count_list_0_iff)
  then show ?thesis using assms(1) by (cases bo) (auto simp: arr_block_ok_def)
qed

lemma arr_block_ok_alloc_other:
  assumes "arr_block_ok p fr ns nw tr bo bf" and "p \<noteq> fr"
  shows "arr_block_ok p (Suc (Suc fr)) ns nw tr bo bf"
proof -
  have e: "even fr" using assms(1) by (simp add: arr_block_ok_def)
  have "(even p \<and> p < Suc (Suc fr)) = (even p \<and> p < fr)"
  proof (cases "p = Suc fr")
    case True
    then show ?thesis using e by simp
  next
    case False
    then show ?thesis using assms(2) by auto
  qed
  moreover have "p < Suc (Suc fr)" if "p < fr" using that by simp
  ultimately show ?thesis using assms(1) e
    by (cases bo) (auto simp: arr_block_ok_def)
qed

lemma arr_block_ok_alloc_new:
  assumes "arr_block_ok fr fr ns nw tr bo bf"
  shows "arr_block_ok fr (Suc (Suc fr)) (ns + 1) nw tr
           (Some \<lparr>acb_ref_count = 1, acb_weak_count = 1, acb_data = Some (Suc fr),
                  acb_size = n\<rparr>) (Some xs)"
  using assms by (cases bo) (simp_all add: arr_block_ok_def)

lemma arr_inv_block: "arr_state_inv s \<Longrightarrow> arr_block_ok p (arr_fresh s)
    (card (owners (arr_arcs s) p)) (card (owners (arr_weak_arcs s) p)) (arr_trace s)
    (arr_blocks s p) (arr_buffers s (Suc p))"
  by (simp add: arr_state_inv_def)

lemma arr_inv_owner_live:
  assumes "arr_state_inv s" and "arr_arcs s v = Some (Some q)"
  shows "\<exists>b. arr_blocks s q = Some b"
proof -
  have "0 < card (owners (arr_arcs s) q)"
    using assms by (simp add: arr_state_inv_def card_owners_pos)
  then show ?thesis using arr_inv_block [OF assms(1), of q]
    by (cases "arr_blocks s q") (simp_all add: arr_block_ok_def)
qed

lemma arr_inv_weak_owner_live:
  assumes "arr_state_inv s" and "arr_weak_arcs s w = Some (Some q)"
  shows "\<exists>b. arr_blocks s q = Some b"
proof -
  have "0 < card (owners (arr_weak_arcs s) q)"
    using assms by (simp add: arr_state_inv_def card_owners_pos)
  then show ?thesis using arr_inv_block [OF assms(1), of q]
    by (cases "arr_blocks s q") (simp_all add: arr_block_ok_def)
qed

lemma arr_inv_acquire:
  assumes "arr_state_inv s" and "\<forall>p. arr_arcs s v \<noteq> Some (Some p)"
      and "arr_blocks s q = Some b"
      and "0 < card (owners (arr_arcs s) q)" and "arr_handles s < 2 ^ 64 - 1"
  shows "arr_state_inv (s\<lparr>arr_arcs := (arr_arcs s)(v \<mapsto> Some q),
           arr_blocks := (arr_blocks s)(q \<mapsto> b\<lparr>acb_ref_count := acb_ref_count b + 1\<rparr>)\<rparr>)"
proof -
  have fin: "finite (dom (arr_arcs s))" "finite (dom (arr_weak_arcs s))"
    using assms(1) by (simp_all add: arr_state_inv_def)
  have "card (owners (arr_arcs s) q) \<le> card (dom (arr_arcs s))"
    by (rule card_owners_le [OF fin(1)])
  then have bound: "card (owners (arr_arcs s) q) < 2 ^ 64 - 1"
    using assms(5) by (simp add: arr_handles_def)
  have "arr_block_ok p (arr_fresh s) (card (owners ((arr_arcs s)(v \<mapsto> Some q)) p))
          (card (owners (arr_weak_arcs s) p)) (arr_trace s)
          (((arr_blocks s)(q \<mapsto> b\<lparr>acb_ref_count := acb_ref_count b + 1\<rparr>)) p)
          (arr_buffers s (Suc p))" for p
  proof (cases "p = q")
    case True
    have "arr_block_ok q (arr_fresh s) (card (owners (arr_arcs s) q) + 1)
            (card (owners (arr_weak_arcs s) q)) (arr_trace s)
            (Some (b\<lparr>acb_ref_count := acb_ref_count b + 1\<rparr>)) (arr_buffers s (Suc q))"
      using arr_inv_block [OF assms(1), of q] assms(3,4) bound
      by (intro arr_block_ok_add_ref) simp_all
    then show ?thesis using True
      by (simp add: card_owners_gain [OF fin(1) assms(2)])
  next
    case False
    then show ?thesis using arr_inv_block [OF assms(1), of p]
      by (simp add: card_owners_gain [OF fin(1) assms(2)])
  qed
  then show ?thesis using fin by (simp add: arr_state_inv_def)
qed

lemma arr_inv_acquire_weak:
  assumes "arr_state_inv s" and "\<forall>p. arr_weak_arcs s w \<noteq> Some (Some p)"
      and "arr_blocks s q = Some b" and "arr_handles s < 2 ^ 64 - 1"
  shows "arr_state_inv (s\<lparr>arr_weak_arcs := (arr_weak_arcs s)(w \<mapsto> Some q),
           arr_blocks := (arr_blocks s)(q \<mapsto> b\<lparr>acb_weak_count := acb_weak_count b + 1\<rparr>)\<rparr>)"
proof -
  have fin: "finite (dom (arr_arcs s))" "finite (dom (arr_weak_arcs s))"
    using assms(1) by (simp_all add: arr_state_inv_def)
  have bound: "card (owners (arr_weak_arcs s) q)
                 + (if card (owners (arr_arcs s) q) = 0 then 0 else 1) < 2 ^ 64 - 1"
    using weak_bound [OF fin, of q] assms(4) by (simp add: arr_handles_def)
  have "arr_block_ok p (arr_fresh s) (card (owners (arr_arcs s) p))
          (card (owners ((arr_weak_arcs s)(w \<mapsto> Some q)) p)) (arr_trace s)
          (((arr_blocks s)(q \<mapsto> b\<lparr>acb_weak_count := acb_weak_count b + 1\<rparr>)) p)
          (arr_buffers s (Suc p))" for p
  proof (cases "p = q")
    case True
    have "arr_block_ok q (arr_fresh s) (card (owners (arr_arcs s) q))
            (card (owners (arr_weak_arcs s) q) + 1) (arr_trace s)
            (Some (b\<lparr>acb_weak_count := acb_weak_count b + 1\<rparr>)) (arr_buffers s (Suc q))"
      using arr_inv_block [OF assms(1), of q] assms(3) bound
      by (intro arr_block_ok_add_weak_ref) simp_all
    then show ?thesis using True
      by (simp add: card_owners_gain [OF fin(2) assms(2)])
  next
    case False
    then show ?thesis using arr_inv_block [OF assms(1), of p]
      by (simp add: card_owners_gain [OF fin(2) assms(2)])
  qed
  then show ?thesis using fin by (simp add: arr_state_inv_def)
qed

lemma arr_inv_make:
  assumes "arr_state_inv s" and "\<forall>p. arr_arcs s v \<noteq> Some (Some p)"
  shows "arr_state_inv (s\<lparr>arr_blocks := (arr_blocks s)(arr_fresh s \<mapsto>
                          \<lparr>acb_ref_count = 1, acb_weak_count = 1,
                           acb_data = Some (Suc (arr_fresh s)), acb_size = n\<rparr>),
                       arr_buffers := (arr_buffers s)(Suc (arr_fresh s) \<mapsto> xs),
                       arr_fresh := Suc (Suc (arr_fresh s)),
                       arr_arcs := (arr_arcs s)(v \<mapsto> Some (arr_fresh s))\<rparr>)"
proof -
  have fin: "finite (dom (arr_arcs s))" "finite (dom (arr_weak_arcs s))"
    using assms(1) by (simp_all add: arr_state_inv_def)
  have "arr_block_ok p (Suc (Suc (arr_fresh s)))
          (card (owners ((arr_arcs s)(v \<mapsto> Some (arr_fresh s))) p))
          (card (owners (arr_weak_arcs s) p)) (arr_trace s)
          (((arr_blocks s)(arr_fresh s \<mapsto> \<lparr>acb_ref_count = 1, acb_weak_count = 1,
                           acb_data = Some (Suc (arr_fresh s)), acb_size = n\<rparr>)) p)
          (((arr_buffers s)(Suc (arr_fresh s) \<mapsto> xs)) (Suc p))" for p
  proof (cases "p = arr_fresh s")
    case True
    have "arr_block_ok (arr_fresh s) (Suc (Suc (arr_fresh s)))
            (card (owners (arr_arcs s) (arr_fresh s)) + 1)
            (card (owners (arr_weak_arcs s) (arr_fresh s))) (arr_trace s)
            (Some \<lparr>acb_ref_count = 1, acb_weak_count = 1,
                   acb_data = Some (Suc (arr_fresh s)), acb_size = n\<rparr>) (Some xs)"
      using arr_inv_block [OF assms(1), of "arr_fresh s"] by (rule arr_block_ok_alloc_new)
    then show ?thesis using True
      by (simp add: card_owners_gain [OF fin(1) assms(2)])
  next
    case False
    have "arr_block_ok p (Suc (Suc (arr_fresh s))) (card (owners (arr_arcs s) p))
            (card (owners (arr_weak_arcs s) p)) (arr_trace s) (arr_blocks s p)
            (arr_buffers s (Suc p))"
      using arr_inv_block [OF assms(1), of p] False by (rule arr_block_ok_alloc_other)
    then show ?thesis using False
      by (simp add: card_owners_gain [OF fin(1) assms(2)])
  qed
  then show ?thesis using fin by (simp add: arr_state_inv_def)
qed

lemma arr_release_weak_ref_eq:
  assumes "arr_blocks s q = Some b" and "acb_weak_count b = 1 \<longrightarrow> acb_data b = None"
  shows "arr_release_weak_ref q s = Inr (
     if acb_weak_count b \<noteq> 1
     then s\<lparr>arr_blocks := (arr_blocks s)(q \<mapsto> b\<lparr>acb_weak_count := acb_weak_count b - 1\<rparr>)\<rparr>
     else s\<lparr>arr_blocks := (arr_blocks s)(q := None),
             arr_trace := arr_trace s @ [BlockFreed q]\<rparr>)"
  using assms by (simp add: arr_release_weak_ref_def arr_delete_this_def)

lemma arr_release_ref_eq:
  assumes "arr_blocks s q = Some b"
      and "acb_ref_count b = 1 \<longrightarrow> acb_data b = Some d \<and> arr_buffers s d \<noteq> None"
  shows "arr_release_ref q s = Inr (
     if acb_ref_count b \<noteq> 1
     then s\<lparr>arr_blocks := (arr_blocks s)(q \<mapsto> b\<lparr>acb_ref_count := acb_ref_count b - 1\<rparr>)\<rparr>
     else if acb_weak_count b \<noteq> 1
     then s\<lparr>arr_buffers := (arr_buffers s)(d := None),
             arr_trace := arr_trace s @ [BufferFreed d],
             arr_blocks := (arr_blocks s)(q \<mapsto> b\<lparr>acb_ref_count := acb_ref_count b - 1,
                 acb_data := None, acb_weak_count := acb_weak_count b - 1\<rparr>)\<rparr>
     else s\<lparr>arr_buffers := (arr_buffers s)(d := None),
             arr_blocks := (arr_blocks s)(q := None),
             arr_trace := arr_trace s @ [BufferFreed d, BlockFreed q]\<rparr>)"
proof (cases "acb_ref_count b = 1")
  case False
  then show ?thesis using assms(1) by (simp add: arr_release_ref_def)
next
  case True
  then obtain xs where d: "acb_data b = Some d" and xs: "arr_buffers s d = Some xs"
    using assms(2) by auto
  show ?thesis using True assms(1) d xs
    by (simp add: arr_release_ref_def arr_delete_data_def arr_release_weak_ref_def
                  arr_delete_this_def)
qed

lemma arr_inv_release_ref:
  assumes "arr_state_inv s" and "0 < card (owners (arr_arcs s) q)" and "finite (dom m)"
      and "\<forall>p. card (owners m p) = card (owners (arr_arcs s) p) - (if p = q then 1 else 0)"
  shows "\<exists>s1. arr_release_ref q s = Inr s1 \<and> arr_arcs s1 = arr_arcs s
              \<and> arr_weak_arcs s1 = arr_weak_arcs s \<and> arr_state_inv (s1\<lparr>arr_arcs := m\<rparr>)"
proof -
  have fin: "finite (dom (arr_weak_arcs s))"
    using assms(1) by (simp add: arr_state_inv_def)
  obtain b where b: "arr_blocks s q = Some b"
    using arr_inv_block [OF assms(1), of q] assms(2)
    by (cases "arr_blocks s q") (simp_all add: arr_block_ok_def)
  have ok: "arr_block_ok q (arr_fresh s) (card (owners (arr_arcs s) q))
              (card (owners (arr_weak_arcs s) q)) (arr_trace s) (Some b)
              (arr_buffers s (Suc q))"
    using arr_inv_block [OF assms(1), of q] b by simp
  have other: "arr_block_ok p (arr_fresh s) (card (owners m p))
                 (card (owners (arr_weak_arcs s) p)) (arr_trace s) (arr_blocks s p)
                 (arr_buffers s (Suc p))" if "p \<noteq> q" for p
    using arr_inv_block [OF assms(1), of p] assms(4) that by simp
  have pre: "acb_ref_count b = 1 \<longrightarrow>
               acb_data b = Some (Suc q) \<and> arr_buffers s (Suc q) \<noteq> None"
    using arr_block_ok_last_strong [OF ok] by simp
  note eq = arr_release_ref_eq [OF b pre]
  show ?thesis
  proof (cases "acb_ref_count b = 1")
    case False
    have "arr_block_ok q (arr_fresh s) (card (owners (arr_arcs s) q) - 1)
            (card (owners (arr_weak_arcs s) q)) (arr_trace s)
            (Some (b\<lparr>acb_ref_count := acb_ref_count b - 1\<rparr>)) (arr_buffers s (Suc q))"
      using ok False assms(2) by (rule arr_block_ok_release_ref_many)
    then have "arr_block_ok p (arr_fresh s) (card (owners m p))
            (card (owners (arr_weak_arcs s) p)) (arr_trace s)
            (((arr_blocks s)(q \<mapsto> b\<lparr>acb_ref_count := acb_ref_count b - 1\<rparr>)) p)
            (arr_buffers s (Suc p))" for p
      using other [of p] assms(4) by (cases "p = q") simp_all
    then show ?thesis using False b fin assms(3)
      by (simp add: eq arr_state_inv_def)
  next
    case one: True
    show ?thesis
    proof (cases "acb_weak_count b = 1")
      case False
      have "arr_block_ok q (arr_fresh s) (card (owners (arr_arcs s) q) - 1)
              (card (owners (arr_weak_arcs s) q)) (arr_trace s @ [BufferFreed (Suc q)])
              (Some (b\<lparr>acb_ref_count := acb_ref_count b - 1, acb_data := None,
                       acb_weak_count := acb_weak_count b - 1\<rparr>)) None"
        using ok one False by (rule arr_block_ok_release_ref_last)
      moreover have "arr_block_ok p (arr_fresh s) (card (owners m p))
              (card (owners (arr_weak_arcs s) p)) (arr_trace s @ [BufferFreed (Suc q)])
              (arr_blocks s p) (arr_buffers s (Suc p))" if "p \<noteq> q" for p
        using other [OF that] that by (intro arr_block_ok_trace_other) simp_all
      ultimately have "arr_block_ok p (arr_fresh s) (card (owners m p))
              (card (owners (arr_weak_arcs s) p)) (arr_trace s @ [BufferFreed (Suc q)])
              (((arr_blocks s)(q \<mapsto> b\<lparr>acb_ref_count := acb_ref_count b - 1,
                       acb_data := None, acb_weak_count := acb_weak_count b - 1\<rparr>)) p)
              (((arr_buffers s)(Suc q := None)) (Suc p))" for p
        using assms(4) by (cases "p = q") simp_all
      then show ?thesis using False one b fin assms(3)
        by (simp add: eq arr_state_inv_def)
    next
      case True
      have "arr_block_ok q (arr_fresh s) (card (owners (arr_arcs s) q) - 1)
              (card (owners (arr_weak_arcs s) q))
              (arr_trace s @ [BufferFreed (Suc q), BlockFreed q]) None None"
        using ok one True by (rule arr_block_ok_release_ref_free)
      moreover have "arr_block_ok p (arr_fresh s) (card (owners m p))
              (card (owners (arr_weak_arcs s) p))
              (arr_trace s @ [BufferFreed (Suc q), BlockFreed q])
              (arr_blocks s p) (arr_buffers s (Suc p))" if "p \<noteq> q" for p
        using other [OF that] that by (intro arr_block_ok_trace_other) simp_all
      ultimately have "arr_block_ok p (arr_fresh s) (card (owners m p))
              (card (owners (arr_weak_arcs s) p))
              (arr_trace s @ [BufferFreed (Suc q), BlockFreed q])
              (((arr_blocks s)(q := None)) p)
              (((arr_buffers s)(Suc q := None)) (Suc p))" for p
        using assms(4) by (cases "p = q") simp_all
      then show ?thesis using True one b fin assms(3)
        by (simp add: eq arr_state_inv_def)
    qed
  qed
qed

lemma arr_inv_release_weak_ref:
  assumes "arr_state_inv s" and "0 < card (owners (arr_weak_arcs s) q)" and "finite (dom m)"
      and "\<forall>p. card (owners m p) = card (owners (arr_weak_arcs s) p) - (if p = q then 1 else 0)"
  shows "\<exists>s1. arr_release_weak_ref q s = Inr s1 \<and> arr_arcs s1 = arr_arcs s
              \<and> arr_weak_arcs s1 = arr_weak_arcs s
              \<and> arr_state_inv (s1\<lparr>arr_weak_arcs := m\<rparr>)"
proof -
  have fin: "finite (dom (arr_arcs s))"
    using assms(1) by (simp add: arr_state_inv_def)
  obtain b where b: "arr_blocks s q = Some b"
    using arr_inv_block [OF assms(1), of q] assms(2)
    by (cases "arr_blocks s q") (simp_all add: arr_block_ok_def)
  have ok: "arr_block_ok q (arr_fresh s) (card (owners (arr_arcs s) q))
              (card (owners (arr_weak_arcs s) q)) (arr_trace s) (Some b)
              (arr_buffers s (Suc q))"
    using arr_inv_block [OF assms(1), of q] b by simp
  have other: "arr_block_ok p (arr_fresh s) (card (owners (arr_arcs s) p))
                 (card (owners m p)) (arr_trace s) (arr_blocks s p)
                 (arr_buffers s (Suc p))" if "p \<noteq> q" for p
    using arr_inv_block [OF assms(1), of p] assms(4) that by simp
  have pre: "acb_weak_count b = 1 \<longrightarrow> acb_data b = None"
    using arr_block_ok_last_weak [OF ok _ assms(2)] by simp
  note eq = arr_release_weak_ref_eq [OF b pre]
  show ?thesis
  proof (cases "acb_weak_count b = 1")
    case False
    have "arr_block_ok q (arr_fresh s) (card (owners (arr_arcs s) q))
            (card (owners (arr_weak_arcs s) q) - 1) (arr_trace s)
            (Some (b\<lparr>acb_weak_count := acb_weak_count b - 1\<rparr>)) (arr_buffers s (Suc q))"
      using ok False assms(2) by (rule arr_block_ok_release_weak_many)
    then have "arr_block_ok p (arr_fresh s) (card (owners (arr_arcs s) p))
            (card (owners m p)) (arr_trace s)
            (((arr_blocks s)(q \<mapsto> b\<lparr>acb_weak_count := acb_weak_count b - 1\<rparr>)) p)
            (arr_buffers s (Suc p))" for p
      using other [of p] assms(4) by (cases "p = q") simp_all
    then show ?thesis using False b fin assms(3)
      by (simp add: eq arr_state_inv_def)
  next
    case True
    have "arr_block_ok q (arr_fresh s) (card (owners (arr_arcs s) q))
            (card (owners (arr_weak_arcs s) q) - 1) (arr_trace s @ [BlockFreed q]) None
            (arr_buffers s (Suc q))"
      using ok True assms(2) by (rule arr_block_ok_release_weak_free)
    moreover have "arr_block_ok p (arr_fresh s) (card (owners (arr_arcs s) p))
            (card (owners m p)) (arr_trace s @ [BlockFreed q]) (arr_blocks s p)
            (arr_buffers s (Suc p))" if "p \<noteq> q" for p
      using other [OF that] that by (intro arr_block_ok_trace_other) simp_all
    ultimately have "arr_block_ok p (arr_fresh s) (card (owners (arr_arcs s) p))
            (card (owners m p)) (arr_trace s @ [BlockFreed q])
            (((arr_blocks s)(q := None)) p) (arr_buffers s (Suc p))" for p
      using assms(4) by (cases "p = q") simp_all
    then show ?thesis using True b fin assms(3)
      by (simp add: eq arr_state_inv_def)
  qed
qed

lemma arr_inv_set_null:
  assumes "arr_state_inv s" and "\<forall>p. arr_arcs s v \<noteq> Some (Some p)"
  shows "arr_state_inv (s\<lparr>arr_arcs := (arr_arcs s)(v \<mapsto> None)\<rparr>)"
  using assms by (intro arr_inv_arcs_upd) (simp_all add: owners_keep_null arr_state_inv_def)

lemma arr_inv_del_null:
  assumes "arr_state_inv s" and "\<forall>p. arr_arcs s v \<noteq> Some (Some p)"
  shows "arr_state_inv (s\<lparr>arr_arcs := (arr_arcs s)(v := None)\<rparr>)"
  using assms by (intro arr_inv_arcs_upd) (simp_all add: owners_keep_del arr_state_inv_def)

lemma arr_inv_transfer:
  assumes "arr_state_inv s" and "\<forall>p. arr_arcs s v \<noteq> Some (Some p)" and "arr_arcs s u = Some h" and "v \<noteq> u"
  shows "arr_state_inv (s\<lparr>arr_arcs := (arr_arcs s)(u \<mapsto> None, v \<mapsto> h)\<rparr>)"
proof -
  have fin: "finite (dom (arr_arcs s))" using assms(1) by (simp add: arr_state_inv_def)
  show ?thesis using assms fin
    by (intro arr_inv_arcs_upd) (simp_all add: card_owners_transfer)
qed

lemma arr_inv_weak_set_null:
  assumes "arr_state_inv s" and "\<forall>p. arr_weak_arcs s w \<noteq> Some (Some p)"
  shows "arr_state_inv (s\<lparr>arr_weak_arcs := (arr_weak_arcs s)(w \<mapsto> None)\<rparr>)"
  using assms by (intro arr_inv_weak_arcs_upd) (simp_all add: owners_keep_null arr_state_inv_def)

lemma arr_inv_weak_del_null:
  assumes "arr_state_inv s" and "\<forall>p. arr_weak_arcs s w \<noteq> Some (Some p)"
  shows "arr_state_inv (s\<lparr>arr_weak_arcs := (arr_weak_arcs s)(w := None)\<rparr>)"
  using assms by (intro arr_inv_weak_arcs_upd) (simp_all add: owners_keep_del arr_state_inv_def)

lemma arr_inv_weak_transfer:
  assumes "arr_state_inv s" and "\<forall>p. arr_weak_arcs s w \<noteq> Some (Some p)" and "arr_weak_arcs s u = Some h"
      and "w \<noteq> u"
  shows "arr_state_inv (s\<lparr>arr_weak_arcs := (arr_weak_arcs s)(u \<mapsto> None, w \<mapsto> h)\<rparr>)"
proof -
  have fin: "finite (dom (arr_weak_arcs s))" using assms(1) by (simp add: arr_state_inv_def)
  show ?thesis using assms fin
    by (intro arr_inv_weak_arcs_upd) (simp_all add: card_owners_transfer)
qed

lemma arr_inv_reset:
  assumes "arr_state_inv s" and "arr_arcs s v = Some mine"
  shows "\<exists>s1. (case mine of None \<Rightarrow> Inr s | Some p \<Rightarrow> arr_release_ref p s) = Inr s1
            \<and> arr_arcs s1 = arr_arcs s \<and> arr_weak_arcs s1 = arr_weak_arcs s
            \<and> arr_state_inv (s1\<lparr>arr_arcs := (arr_arcs s)(v \<mapsto> None)\<rparr>)
            \<and> arr_state_inv (s1\<lparr>arr_arcs := (arr_arcs s)(v := None)\<rparr>)"
proof (cases mine)
  case None
  then have "\<forall>p. arr_arcs s v \<noteq> Some (Some p)" using assms(2) by simp
  then show ?thesis using None assms(1) by (simp add: arr_inv_set_null arr_inv_del_null)
next
  case (Some q)
  have fin: "finite (dom (arr_arcs s))" using assms(1) by (simp add: arr_state_inv_def)
  have own: "arr_arcs s v = Some (Some q)" using assms(2) Some by simp
  have pos: "0 < card (owners (arr_arcs s) q)" by (rule card_owners_pos [OF fin own])
  obtain s1 where s1: "arr_release_ref q s = Inr s1" "arr_arcs s1 = arr_arcs s" "arr_weak_arcs s1 = arr_weak_arcs s"
      "arr_state_inv (s1\<lparr>arr_arcs := (arr_arcs s)(v \<mapsto> None)\<rparr>)"
    using arr_inv_release_ref [OF assms(1) pos, of "(arr_arcs s)(v \<mapsto> None)"] fin
    by (auto simp: card_owners_null [OF fin own])
  obtain s2 where s2: "arr_release_ref q s = Inr s2" "arr_state_inv (s2\<lparr>arr_arcs := (arr_arcs s)(v := None)\<rparr>)"
    using arr_inv_release_ref [OF assms(1) pos, of "(arr_arcs s)(v := None)"] fin
    by (auto simp: card_owners_del [OF fin own])
  have "s2 = s1" using s1(1) s2(1) by simp
  then show ?thesis using s1 s2 Some by simp
qed

lemma arr_inv_weak_reset:
  assumes "arr_state_inv s" and "arr_weak_arcs s w = Some mine"
  shows "\<exists>s1. (case mine of None \<Rightarrow> Inr s | Some p \<Rightarrow> arr_release_weak_ref p s) = Inr s1
            \<and> arr_arcs s1 = arr_arcs s \<and> arr_weak_arcs s1 = arr_weak_arcs s
            \<and> arr_state_inv (s1\<lparr>arr_weak_arcs := (arr_weak_arcs s)(w \<mapsto> None)\<rparr>)
            \<and> arr_state_inv (s1\<lparr>arr_weak_arcs := (arr_weak_arcs s)(w := None)\<rparr>)"
proof (cases mine)
  case None
  then have "\<forall>p. arr_weak_arcs s w \<noteq> Some (Some p)" using assms(2) by simp
  then show ?thesis using None assms(1) by (simp add: arr_inv_weak_set_null arr_inv_weak_del_null)
next
  case (Some q)
  have fin: "finite (dom (arr_weak_arcs s))" using assms(1) by (simp add: arr_state_inv_def)
  have own: "arr_weak_arcs s w = Some (Some q)" using assms(2) Some by simp
  have pos: "0 < card (owners (arr_weak_arcs s) q)" by (rule card_owners_pos [OF fin own])
  obtain s1 where s1: "arr_release_weak_ref q s = Inr s1" "arr_arcs s1 = arr_arcs s"
      "arr_weak_arcs s1 = arr_weak_arcs s" "arr_state_inv (s1\<lparr>arr_weak_arcs := (arr_weak_arcs s)(w \<mapsto> None)\<rparr>)"
    using arr_inv_release_weak_ref [OF assms(1) pos, of "(arr_weak_arcs s)(w \<mapsto> None)"] fin
    by (auto simp: card_owners_null [OF fin own])
  obtain s2 where s2: "arr_release_weak_ref q s = Inr s2"
      "arr_state_inv (s2\<lparr>arr_weak_arcs := (arr_weak_arcs s)(w := None)\<rparr>)"
    using arr_inv_release_weak_ref [OF assms(1) pos, of "(arr_weak_arcs s)(w := None)"] fin
    by (auto simp: card_owners_del [OF fin own])
  have "s2 = s1" using s1(1) s2(1) by simp
  then show ?thesis using s1 s2 Some by simp
qed


lemma arr_arc_default_inv:
  assumes "arr_state_inv s" and "arr_arc_default v s = Inr s'"
  shows "arr_state_inv s'"
proof -
  have v: "arr_arcs s v = None" and s': "s' = s\<lparr>arr_arcs := (arr_arcs s)(v \<mapsto> None)\<rparr>"
    using assms(2) by (auto simp: arr_arc_default_def split: option.splits)
  show ?thesis unfolding s' using assms(1) v by (intro arr_inv_set_null) simp_all
qed

lemma arr_arc_make_inv:
  assumes "arr_state_inv s" and "arr_arc_make v n x s = Inr s'"
  shows "arr_state_inv s'"
proof -
  have v: "arr_arcs s v = None"
    using assms(2) by (auto simp: arr_arc_make_def split: option.splits)
  have s': "s' = s\<lparr>arr_blocks := (arr_blocks s)(arr_fresh s \<mapsto>
                          \<lparr>acb_ref_count = 1, acb_weak_count = 1,
                           acb_data = Some (Suc (arr_fresh s)), acb_size = n\<rparr>),
                       arr_buffers := (arr_buffers s)(Suc (arr_fresh s) \<mapsto> replicate (unat n) x),
                       arr_fresh := Suc (Suc (arr_fresh s)),
                       arr_arcs := (arr_arcs s)(v \<mapsto> Some (arr_fresh s))\<rparr>"
    using assms(2) v by (simp add: arr_arc_make_def)
  show ?thesis unfolding s' using assms(1) v by (intro arr_inv_make) simp_all
qed

lemma arr_acquire_inv:
  assumes "arr_state_inv s" and "arr_handles s < 2 ^ 64 - 1" and "\<forall>p. arr_arcs s v \<noteq> Some (Some p)"
      and "arr_arcs s u = Some (Some q)"
  shows "\<exists>s'. arr_add_ref q (s\<lparr>arr_arcs := (arr_arcs s)(v \<mapsto> Some q)\<rparr>) = Inr s' \<and> arr_state_inv s'"
proof -
  have fin: "finite (dom (arr_arcs s))" using assms(1) by (simp add: arr_state_inv_def)
  obtain b where b: "arr_blocks s q = Some b"
    using arr_inv_owner_live [OF assms(1) assms(4)] by auto
  have pos: "0 < card (owners (arr_arcs s) q)" by (rule card_owners_pos [OF fin assms(4)])
  have "arr_state_inv (s\<lparr>arr_arcs := (arr_arcs s)(v \<mapsto> Some q),
                arr_blocks := (arr_blocks s)(q \<mapsto> b\<lparr>acb_ref_count := acb_ref_count b + 1\<rparr>)\<rparr>)"
    by (rule arr_inv_acquire [OF assms(1) assms(3) b pos assms(2)])
  then show ?thesis using b by (simp add: arr_add_ref_def)
qed

lemma arr_arc_copy_inv:
  assumes "arr_state_inv s" and "arr_handles s < 2 ^ 64 - 1" and "arr_arc_copy v u s = Inr s'"
  shows "arr_state_inv s'"
proof -
  obtain blk where v: "arr_arcs s v = None" and u: "arr_arcs s u = Some blk"
    using assms(3) by (auto simp: arr_arc_copy_def split: option.splits)
  have nv: "\<forall>p. arr_arcs s v \<noteq> Some (Some p)" using v by simp
  show ?thesis
  proof (cases blk)
    case None
    then have "s' = s\<lparr>arr_arcs := (arr_arcs s)(v \<mapsto> None)\<rparr>"
      using assms(3) v u by (simp add: arr_arc_copy_def)
    then show ?thesis using arr_inv_set_null [OF assms(1) nv] by simp
  next
    case (Some q)
    then have "arr_add_ref q (s\<lparr>arr_arcs := (arr_arcs s)(v \<mapsto> Some q)\<rparr>) = Inr s'"
      using assms(3) v u by (simp add: arr_arc_copy_def)
    then show ?thesis using arr_acquire_inv [OF assms(1) assms(2) nv, of u q] u Some by auto
  qed
qed

lemma arr_arc_move_inv:
  assumes "arr_state_inv s" and "arr_arc_move v u s = Inr s'"
  shows "arr_state_inv s'"
proof -
  obtain blk where v: "arr_arcs s v = None" and u: "arr_arcs s u = Some blk"
    using assms(2) by (auto simp: arr_arc_move_def split: option.splits)
  have nv: "\<forall>p. arr_arcs s v \<noteq> Some (Some p)" using v by simp
  have ne: "v \<noteq> u" using v u by auto
  have "s' = s\<lparr>arr_arcs := (arr_arcs s)(u \<mapsto> None, v \<mapsto> blk)\<rparr>"
    using assms(2) v u by (simp add: arr_arc_move_def)
  then show ?thesis using arr_inv_transfer [OF assms(1) nv u ne] by simp
qed

lemma arr_arc_dtor_inv:
  assumes "arr_state_inv s" and "arr_arc_dtor v s = Inr s'"
  shows "arr_state_inv s'"
proof -
  obtain mine where v: "arr_arcs s v = Some mine"
    using assms(2) by (auto simp: arr_arc_dtor_def split: option.splits)
  obtain s1 where s1: "(case mine of None \<Rightarrow> Inr s | Some p \<Rightarrow> arr_release_ref p s) = Inr s1"
      "arr_arcs s1 = arr_arcs s" "arr_state_inv (s1\<lparr>arr_arcs := (arr_arcs s)(v := None)\<rparr>)"
    using arr_inv_reset [OF assms(1) v] by auto
  have "s' = s1\<lparr>arr_arcs := (arr_arcs s)(v := None)\<rparr>"
    using assms(2) v s1(1,2) by (simp add: arr_arc_dtor_def)
  then show ?thesis using s1(3) by simp
qed

lemma arr_handles_set_existing:
  assumes "arr_arcs s v = Some h" and "arr_arcs s1 = arr_arcs s" and "arr_weak_arcs s1 = arr_weak_arcs s"
  shows "arr_handles (s1\<lparr>arr_arcs := (arr_arcs s)(v \<mapsto> h')\<rparr>) = arr_handles s"
proof -
  have "insert v (dom (arr_arcs s)) = dom (arr_arcs s)" using assms(1) by auto
  then show ?thesis using assms(2,3) by (simp add: arr_handles_def)
qed

lemma arr_arc_assign_inv:
  assumes "arr_state_inv s" and "arr_handles s < 2 ^ 64 - 1" and "arr_arc_assign v u s = Inr s'"
  shows "arr_state_inv s'"
proof -
  obtain mine theirs where v: "arr_arcs s v = Some mine" and u: "arr_arcs s u = Some theirs"
    using assms(3) by (auto simp: arr_arc_assign_def split: option.splits)
  show ?thesis
  proof (cases "v = u")
    case True
    then have "s' = s" using assms(3) v by (simp add: arr_arc_assign_def)
    then show ?thesis using assms(1) by simp
  next
    case False
    obtain s1 where s1: "(case mine of None \<Rightarrow> Inr s | Some p \<Rightarrow> arr_release_ref p s) = Inr s1"
        "arr_arcs s1 = arr_arcs s" "arr_weak_arcs s1 = arr_weak_arcs s"
        "arr_state_inv (s1\<lparr>arr_arcs := (arr_arcs s)(v \<mapsto> None)\<rparr>)"
      using arr_inv_reset [OF assms(1) v] by auto
    define sm where "sm = s1\<lparr>arr_arcs := (arr_arcs s)(v \<mapsto> None)\<rparr>"
    have sm: "arr_state_inv sm" using s1(4) by (simp add: sm_def)
    have hm: "arr_handles sm < 2 ^ 64 - 1"
      using arr_handles_set_existing [OF v s1(2,3), of None] assms(2) by (simp add: sm_def)
    have nv: "\<forall>p. arr_arcs sm v \<noteq> Some (Some p)" by (simp add: sm_def)
    show ?thesis
    proof (cases theirs)
      case None
      then have "s' = sm"
        using assms(3) v u False s1(1,2) by (simp add: arr_arc_assign_def sm_def)
      then show ?thesis using sm by simp
    next
      case (Some q)
      have uq: "arr_arcs sm u = Some (Some q)" using u Some False by (simp add: sm_def)
      have "arr_add_ref q (sm\<lparr>arr_arcs := (arr_arcs sm)(v \<mapsto> Some q)\<rparr>) = Inr s'"
        using assms(3) v u False s1(1,2) Some by (simp add: arr_arc_assign_def sm_def)
      then show ?thesis using arr_acquire_inv [OF sm hm nv uq] by auto
    qed
  qed
qed

lemma arr_arc_move_assign_inv:
  assumes "arr_state_inv s" and "arr_arc_move_assign v u s = Inr s'"
  shows "arr_state_inv s'"
proof -
  obtain mine theirs where v: "arr_arcs s v = Some mine" and u: "arr_arcs s u = Some theirs"
    using assms(2) by (auto simp: arr_arc_move_assign_def split: option.splits)
  show ?thesis
  proof (cases "v = u")
    case True
    then have "s' = s" using assms(2) v by (simp add: arr_arc_move_assign_def)
    then show ?thesis using assms(1) by simp
  next
    case False
    obtain s1 where s1: "(case mine of None \<Rightarrow> Inr s | Some p \<Rightarrow> arr_release_ref p s) = Inr s1"
        "arr_arcs s1 = arr_arcs s" "arr_weak_arcs s1 = arr_weak_arcs s"
        "arr_state_inv (s1\<lparr>arr_arcs := (arr_arcs s)(v \<mapsto> None)\<rparr>)"
      using arr_inv_reset [OF assms(1) v] by auto
    define sm where "sm = s1\<lparr>arr_arcs := (arr_arcs s)(v \<mapsto> None)\<rparr>"
    have sm: "arr_state_inv sm" using s1(4) by (simp add: sm_def)
    have nv: "\<forall>p. arr_arcs sm v \<noteq> Some (Some p)" by (simp add: sm_def)
    have um: "arr_arcs sm u = Some theirs" using u False by (simp add: sm_def)
    have tw: "(arr_arcs s)(v \<mapsto> None, u \<mapsto> None, v \<mapsto> theirs) = (arr_arcs s)(u \<mapsto> None, v \<mapsto> theirs)"
      by (rule ext) simp
    have "s' = s1\<lparr>arr_arcs := (arr_arcs s)(u \<mapsto> None, v \<mapsto> theirs)\<rparr>"
      using assms(2) v u False s1(1,2) by (simp add: arr_arc_move_assign_def)
    also have "\<dots> = sm\<lparr>arr_arcs := (arr_arcs sm)(u \<mapsto> None, v \<mapsto> theirs)\<rparr>"
      by (simp add: sm_def tw)
    finally have "s' = sm\<lparr>arr_arcs := (arr_arcs sm)(u \<mapsto> None, v \<mapsto> theirs)\<rparr>" .
    then show ?thesis using arr_inv_transfer [OF sm nv um False] by simp
  qed
qed

lemma arr_weak_default_inv:
  assumes "arr_state_inv s" and "arr_weak_default w s = Inr s'"
  shows "arr_state_inv s'"
proof -
  have w: "arr_weak_arcs s w = None" and s': "s' = s\<lparr>arr_weak_arcs := (arr_weak_arcs s)(w \<mapsto> None)\<rparr>"
    using assms(2) by (auto simp: arr_weak_default_def split: option.splits)
  show ?thesis unfolding s' using assms(1) w by (intro arr_inv_weak_set_null) simp_all
qed

lemma arr_acquire_weak_inv:
  assumes "arr_state_inv s" and "arr_handles s < 2 ^ 64 - 1" and "\<forall>p. arr_weak_arcs s w \<noteq> Some (Some p)"
      and "arr_blocks s q = Some b"
  shows "\<exists>s'. arr_add_weak_ref q (s\<lparr>arr_weak_arcs := (arr_weak_arcs s)(w \<mapsto> Some q)\<rparr>) = Inr s' \<and> arr_state_inv s'"
proof -
  have "arr_state_inv (s\<lparr>arr_weak_arcs := (arr_weak_arcs s)(w \<mapsto> Some q),
                arr_blocks := (arr_blocks s)(q \<mapsto> b\<lparr>acb_weak_count := acb_weak_count b + 1\<rparr>)\<rparr>)"
    by (rule arr_inv_acquire_weak [OF assms(1) assms(3) assms(4) assms(2)])
  then show ?thesis using assms(4) by (simp add: arr_add_weak_ref_def)
qed

lemma arr_weak_from_arc_inv:
  assumes "arr_state_inv s" and "arr_handles s < 2 ^ 64 - 1" and "arr_weak_from_arc w v s = Inr s'"
  shows "arr_state_inv s'"
proof -
  obtain blk where w: "arr_weak_arcs s w = None" and v: "arr_arcs s v = Some blk"
    using assms(3) by (auto simp: arr_weak_from_arc_def split: option.splits)
  have nw: "\<forall>p. arr_weak_arcs s w \<noteq> Some (Some p)" using w by simp
  show ?thesis
  proof (cases blk)
    case None
    then have "s' = s\<lparr>arr_weak_arcs := (arr_weak_arcs s)(w \<mapsto> None)\<rparr>"
      using assms(3) w v by (simp add: arr_weak_from_arc_def)
    then show ?thesis using arr_inv_weak_set_null [OF assms(1) nw] by simp
  next
    case (Some q)
    obtain b where b: "arr_blocks s q = Some b"
      using arr_inv_owner_live [OF assms(1), of v q] v Some by auto
    have "arr_add_weak_ref q (s\<lparr>arr_weak_arcs := (arr_weak_arcs s)(w \<mapsto> Some q)\<rparr>) = Inr s'"
      using assms(3) w v Some by (simp add: arr_weak_from_arc_def)
    then show ?thesis using arr_acquire_weak_inv [OF assms(1) assms(2) nw b] by auto
  qed
qed

lemma arr_weak_copy_inv:
  assumes "arr_state_inv s" and "arr_handles s < 2 ^ 64 - 1" and "arr_weak_copy w u s = Inr s'"
  shows "arr_state_inv s'"
proof -
  obtain blk where w: "arr_weak_arcs s w = None" and u: "arr_weak_arcs s u = Some blk"
    using assms(3) by (auto simp: arr_weak_copy_def split: option.splits)
  have nw: "\<forall>p. arr_weak_arcs s w \<noteq> Some (Some p)" using w by simp
  show ?thesis
  proof (cases blk)
    case None
    then have "s' = s\<lparr>arr_weak_arcs := (arr_weak_arcs s)(w \<mapsto> None)\<rparr>"
      using assms(3) w u by (simp add: arr_weak_copy_def)
    then show ?thesis using arr_inv_weak_set_null [OF assms(1) nw] by simp
  next
    case (Some q)
    obtain b where b: "arr_blocks s q = Some b"
      using arr_inv_weak_owner_live [OF assms(1), of u q] u Some by auto
    have "arr_add_weak_ref q (s\<lparr>arr_weak_arcs := (arr_weak_arcs s)(w \<mapsto> Some q)\<rparr>) = Inr s'"
      using assms(3) w u Some by (simp add: arr_weak_copy_def)
    then show ?thesis using arr_acquire_weak_inv [OF assms(1) assms(2) nw b] by auto
  qed
qed

lemma arr_weak_move_inv:
  assumes "arr_state_inv s" and "arr_weak_move w u s = Inr s'"
  shows "arr_state_inv s'"
proof -
  obtain blk where w: "arr_weak_arcs s w = None" and u: "arr_weak_arcs s u = Some blk"
    using assms(2) by (auto simp: arr_weak_move_def split: option.splits)
  have nw: "\<forall>p. arr_weak_arcs s w \<noteq> Some (Some p)" using w by simp
  have ne: "w \<noteq> u" using w u by auto
  have "s' = s\<lparr>arr_weak_arcs := (arr_weak_arcs s)(u \<mapsto> None, w \<mapsto> blk)\<rparr>"
    using assms(2) w u by (simp add: arr_weak_move_def)
  then show ?thesis using arr_inv_weak_transfer [OF assms(1) nw u ne] by simp
qed

lemma arr_weak_dtor_inv:
  assumes "arr_state_inv s" and "arr_weak_dtor w s = Inr s'"
  shows "arr_state_inv s'"
proof -
  obtain mine where w: "arr_weak_arcs s w = Some mine"
    using assms(2) by (auto simp: arr_weak_dtor_def split: option.splits)
  obtain s1 where s1:
      "(case mine of None \<Rightarrow> Inr s | Some p \<Rightarrow> arr_release_weak_ref p s) = Inr s1"
      "arr_weak_arcs s1 = arr_weak_arcs s" "arr_state_inv (s1\<lparr>arr_weak_arcs := (arr_weak_arcs s)(w := None)\<rparr>)"
    using arr_inv_weak_reset [OF assms(1) w] by auto
  have "s' = s1\<lparr>arr_weak_arcs := (arr_weak_arcs s)(w := None)\<rparr>"
    using assms(2) w s1(1,2) by (simp add: arr_weak_dtor_def)
  then show ?thesis using s1(3) by simp
qed

lemma arr_handles_weak_set_existing:
  assumes "arr_weak_arcs s w = Some h" and "arr_arcs s1 = arr_arcs s" and "arr_weak_arcs s1 = arr_weak_arcs s"
  shows "arr_handles (s1\<lparr>arr_weak_arcs := (arr_weak_arcs s)(w \<mapsto> h')\<rparr>) = arr_handles s"
proof -
  have "insert w (dom (arr_weak_arcs s)) = dom (arr_weak_arcs s)" using assms(1) by auto
  then show ?thesis using assms(2,3) by (simp add: arr_handles_def)
qed

lemma arr_weak_assign_inv:
  assumes "arr_state_inv s" and "arr_handles s < 2 ^ 64 - 1" and "arr_weak_assign w u s = Inr s'"
  shows "arr_state_inv s'"
proof -
  obtain mine theirs where w: "arr_weak_arcs s w = Some mine" and u: "arr_weak_arcs s u = Some theirs"
    using assms(3) by (auto simp: arr_weak_assign_def split: option.splits)
  show ?thesis
  proof (cases "w = u")
    case True
    then have "s' = s" using assms(3) w by (simp add: arr_weak_assign_def)
    then show ?thesis using assms(1) by simp
  next
    case False
    obtain s1 where s1:
        "(case mine of None \<Rightarrow> Inr s | Some p \<Rightarrow> arr_release_weak_ref p s) = Inr s1"
        "arr_arcs s1 = arr_arcs s" "arr_weak_arcs s1 = arr_weak_arcs s"
        "arr_state_inv (s1\<lparr>arr_weak_arcs := (arr_weak_arcs s)(w \<mapsto> None)\<rparr>)"
      using arr_inv_weak_reset [OF assms(1) w] by auto
    define sm where "sm = s1\<lparr>arr_weak_arcs := (arr_weak_arcs s)(w \<mapsto> None)\<rparr>"
    have sm: "arr_state_inv sm" using s1(4) by (simp add: sm_def)
    have hm: "arr_handles sm < 2 ^ 64 - 1"
      using arr_handles_weak_set_existing [OF w s1(2,3), of None] assms(2) by (simp add: sm_def)
    have nw: "\<forall>p. arr_weak_arcs sm w \<noteq> Some (Some p)" by (simp add: sm_def)
    show ?thesis
    proof (cases theirs)
      case None
      then have "s' = sm"
        using assms(3) w u False s1(1,3) by (simp add: arr_weak_assign_def sm_def)
      then show ?thesis using sm by simp
    next
      case (Some q)
      have uq: "arr_weak_arcs sm u = Some (Some q)" using u Some False by (simp add: sm_def)
      obtain b where b: "arr_blocks sm q = Some b"
        using arr_inv_weak_owner_live [OF sm uq] by auto
      have "arr_add_weak_ref q (sm\<lparr>arr_weak_arcs := (arr_weak_arcs sm)(w \<mapsto> Some q)\<rparr>) = Inr s'"
        using assms(3) w u False s1(1,3) Some by (simp add: arr_weak_assign_def sm_def)
      then show ?thesis using arr_acquire_weak_inv [OF sm hm nw b] by auto
    qed
  qed
qed

lemma arr_weak_move_assign_inv:
  assumes "arr_state_inv s" and "arr_weak_move_assign w u s = Inr s'"
  shows "arr_state_inv s'"
proof -
  obtain mine theirs where w: "arr_weak_arcs s w = Some mine" and u: "arr_weak_arcs s u = Some theirs"
    using assms(2) by (auto simp: arr_weak_move_assign_def split: option.splits)
  show ?thesis
  proof (cases "w = u")
    case True
    then have "s' = s" using assms(2) w by (simp add: arr_weak_move_assign_def)
    then show ?thesis using assms(1) by simp
  next
    case False
    obtain s1 where s1:
        "(case mine of None \<Rightarrow> Inr s | Some p \<Rightarrow> arr_release_weak_ref p s) = Inr s1"
        "arr_arcs s1 = arr_arcs s" "arr_weak_arcs s1 = arr_weak_arcs s"
        "arr_state_inv (s1\<lparr>arr_weak_arcs := (arr_weak_arcs s)(w \<mapsto> None)\<rparr>)"
      using arr_inv_weak_reset [OF assms(1) w] by auto
    define sm where "sm = s1\<lparr>arr_weak_arcs := (arr_weak_arcs s)(w \<mapsto> None)\<rparr>"
    have sm: "arr_state_inv sm" using s1(4) by (simp add: sm_def)
    have nw: "\<forall>p. arr_weak_arcs sm w \<noteq> Some (Some p)" by (simp add: sm_def)
    have um: "arr_weak_arcs sm u = Some theirs" using u False by (simp add: sm_def)
    have tw: "(arr_weak_arcs s)(w \<mapsto> None, u \<mapsto> None, w \<mapsto> theirs)
                = (arr_weak_arcs s)(u \<mapsto> None, w \<mapsto> theirs)"
      by (rule ext) simp
    have "s' = s1\<lparr>arr_weak_arcs := (arr_weak_arcs s)(u \<mapsto> None, w \<mapsto> theirs)\<rparr>"
      using assms(2) w u False s1(1,3) by (simp add: arr_weak_move_assign_def)
    also have "\<dots> = sm\<lparr>arr_weak_arcs := (arr_weak_arcs sm)(u \<mapsto> None, w \<mapsto> theirs)\<rparr>"
      by (simp add: sm_def tw)
    finally have "s' = sm\<lparr>arr_weak_arcs := (arr_weak_arcs sm)(u \<mapsto> None, w \<mapsto> theirs)\<rparr>" .
    then show ?thesis using arr_inv_weak_transfer [OF sm nw um False] by simp
  qed
qed

lemma arr_weak_lock_inv:
  assumes "arr_state_inv s" and "arr_handles s < 2 ^ 64 - 1" and "arr_weak_lock v w s = Inr s'"
  shows "arr_state_inv s'"
proof -
  obtain blk where w: "arr_weak_arcs s w = Some blk"
    using assms(3) by (auto simp: arr_weak_lock_def split: option.splits)
  show ?thesis
  proof (cases blk)
    case None
    then have "arr_arc_default v s = Inr s'" using assms(3) w by (simp add: arr_weak_lock_def)
    then show ?thesis using arr_arc_default_inv [OF assms(1)] by simp
  next
    case (Some q)
    obtain b where b: "arr_blocks s q = Some b"
      using arr_inv_weak_owner_live [OF assms(1), of w q] w Some by auto
    show ?thesis
    proof (cases "acb_ref_count b = 0")
      case True
      then have "arr_arc_default v s = Inr s'"
        using assms(3) w Some b by (simp add: arr_weak_lock_def arr_ref_count_def)
      then show ?thesis using arr_arc_default_inv [OF assms(1)] by simp
    next
      case False
      then have fb: "arr_arc_from_block v (Some q) s = Inr s'"
        using assms(3) w Some b by (simp add: arr_weak_lock_def arr_ref_count_def word_greater_zero_iff)
      then have v: "arr_arcs s v = None"
        by (auto simp: arr_arc_from_block_def split: option.splits)
      have nv: "\<forall>p. arr_arcs s v \<noteq> Some (Some p)" using v by simp
      have "unat (acb_ref_count b) = card (owners (arr_arcs s) q)"
        using arr_inv_block [OF assms(1), of q] b by (simp add: arr_block_ok_def)
      then have pos: "0 < card (owners (arr_arcs s) q)"
        using False by (simp add: unat_gt_0 [symmetric])
      have "arr_state_inv (s\<lparr>arr_arcs := (arr_arcs s)(v \<mapsto> Some q),
                arr_blocks := (arr_blocks s)(q \<mapsto> b\<lparr>acb_ref_count := acb_ref_count b + 1\<rparr>)\<rparr>)"
        by (rule arr_inv_acquire [OF assms(1) nv b pos assms(2)])
      then show ?thesis using fb v b by (simp add: arr_arc_from_block_def arr_add_ref_def)
    qed
  qed
qed

lemma arr_step_inv:
  assumes "arr_state_inv s" and "arr_handles s < 2 ^ 64 - 1" and "arr_step c s = Inr s'"
  shows "arr_state_inv s'"
proof (cases c)
  case (ArrArcDefault v)
  then have "arr_arc_default v s = Inr s'" using assms(3) by simp
  then show ?thesis by (rule arr_arc_default_inv [OF assms(1)])
next
  case (ArrArcMake v n x)
  then have "arr_arc_make v n x s = Inr s'" using assms(3) by simp
  then show ?thesis by (rule arr_arc_make_inv [OF assms(1)])
next
  case (ArrArcCopy v u)
  then have "arr_arc_copy v u s = Inr s'" using assms(3) by simp
  then show ?thesis by (rule arr_arc_copy_inv [OF assms(1,2)])
next
  case (ArrArcMove v u)
  then have "arr_arc_move v u s = Inr s'" using assms(3) by simp
  then show ?thesis by (rule arr_arc_move_inv [OF assms(1)])
next
  case (ArrArcDtor v)
  then have "arr_arc_dtor v s = Inr s'" using assms(3) by simp
  then show ?thesis by (rule arr_arc_dtor_inv [OF assms(1)])
next
  case (ArrArcAssign v u)
  then have "arr_arc_assign v u s = Inr s'" using assms(3) by simp
  then show ?thesis by (rule arr_arc_assign_inv [OF assms(1,2)])
next
  case (ArrArcMoveAssign v u)
  then have "arr_arc_move_assign v u s = Inr s'" using assms(3) by simp
  then show ?thesis by (rule arr_arc_move_assign_inv [OF assms(1)])
next
  case (ArrWeakDefault w)
  then have "arr_weak_default w s = Inr s'" using assms(3) by simp
  then show ?thesis by (rule arr_weak_default_inv [OF assms(1)])
next
  case (ArrWeakFromArc w v)
  then have "arr_weak_from_arc w v s = Inr s'" using assms(3) by simp
  then show ?thesis by (rule arr_weak_from_arc_inv [OF assms(1,2)])
next
  case (ArrWeakCopy w u)
  then have "arr_weak_copy w u s = Inr s'" using assms(3) by simp
  then show ?thesis by (rule arr_weak_copy_inv [OF assms(1,2)])
next
  case (ArrWeakMove w u)
  then have "arr_weak_move w u s = Inr s'" using assms(3) by simp
  then show ?thesis by (rule arr_weak_move_inv [OF assms(1)])
next
  case (ArrWeakDtor w)
  then have "arr_weak_dtor w s = Inr s'" using assms(3) by simp
  then show ?thesis by (rule arr_weak_dtor_inv [OF assms(1)])
next
  case (ArrWeakAssign w u)
  then have "arr_weak_assign w u s = Inr s'" using assms(3) by simp
  then show ?thesis by (rule arr_weak_assign_inv [OF assms(1,2)])
next
  case (ArrWeakMoveAssign w u)
  then have "arr_weak_move_assign w u s = Inr s'" using assms(3) by simp
  then show ?thesis by (rule arr_weak_move_assign_inv [OF assms(1)])
next
  case (ArrWeakLock v w)
  then have "arr_weak_lock v w s = Inr s'" using assms(3) by simp
  then show ?thesis by (rule arr_weak_lock_inv [OF assms(1,2)])
qed


lemma arr_add_ref_frame:
  "arr_add_ref q s = Inr s' \<Longrightarrow> arr_arcs s' = arr_arcs s \<and> arr_weak_arcs s' = arr_weak_arcs s
     \<and> arr_fresh s' = arr_fresh s"
  by (auto simp: arr_add_ref_def split: option.splits)

lemma arr_add_weak_ref_frame:
  "arr_add_weak_ref q s = Inr s' \<Longrightarrow> arr_arcs s' = arr_arcs s \<and> arr_weak_arcs s' = arr_weak_arcs s
     \<and> arr_fresh s' = arr_fresh s"
  by (auto simp: arr_add_weak_ref_def split: option.splits)

lemma arr_delete_data_frame:
  "arr_delete_data d s = Inr s' \<Longrightarrow> arr_arcs s' = arr_arcs s \<and> arr_weak_arcs s' = arr_weak_arcs s
     \<and> arr_fresh s' = arr_fresh s"
  by (auto simp: arr_delete_data_def split: option.splits)

lemma arr_delete_this_frame:
  "arr_delete_this q s = Inr s' \<Longrightarrow> arr_arcs s' = arr_arcs s \<and> arr_weak_arcs s' = arr_weak_arcs s
     \<and> arr_fresh s' = arr_fresh s"
  by (auto simp: arr_delete_this_def split: option.splits sum.splits
           dest!: arr_delete_data_frame)

lemma arr_release_weak_ref_frame:
  "arr_release_weak_ref q s = Inr s' \<Longrightarrow> arr_arcs s' = arr_arcs s
     \<and> arr_weak_arcs s' = arr_weak_arcs s \<and> arr_fresh s' = arr_fresh s"
  by (auto simp: arr_release_weak_ref_def Let_def split: option.splits if_splits
           dest!: arr_delete_this_frame)

lemma arr_release_ref_frame:
  "arr_release_ref q s = Inr s' \<Longrightarrow> arr_arcs s' = arr_arcs s
     \<and> arr_weak_arcs s' = arr_weak_arcs s \<and> arr_fresh s' = arr_fresh s"
  by (auto simp: arr_release_ref_def Let_def split: option.splits if_splits sum.splits
           dest!: arr_release_weak_ref_frame arr_delete_data_frame)

lemma arr_reset_frame:
  "(case mine of None \<Rightarrow> Inr s | Some p \<Rightarrow> arr_release_ref p s) = Inr s'
     \<Longrightarrow> arr_arcs s' = arr_arcs s \<and> arr_weak_arcs s' = arr_weak_arcs s \<and> arr_fresh s' = arr_fresh s"
  by (cases mine) (auto dest: arr_release_ref_frame)

lemma arr_weak_reset_frame:
  "(case mine of None \<Rightarrow> Inr s | Some p \<Rightarrow> arr_release_weak_ref p s) = Inr s'
     \<Longrightarrow> arr_arcs s' = arr_arcs s \<and> arr_weak_arcs s' = arr_weak_arcs s \<and> arr_fresh s' = arr_fresh s"
  by (cases mine) (auto dest: arr_release_weak_ref_frame)

lemma arr_grows_by_strong:
  "arr_fresh s \<le> arr_fresh s' \<Longrightarrow> dom (arr_arcs s') \<subseteq> insert v (dom (arr_arcs s))
    \<Longrightarrow> dom (arr_weak_arcs s') \<subseteq> dom (arr_weak_arcs s) \<Longrightarrow> arr_grows_by s s'"
  unfolding arr_grows_by_def by blast

lemma arr_grows_by_weak:
  "arr_fresh s \<le> arr_fresh s' \<Longrightarrow> dom (arr_arcs s') \<subseteq> dom (arr_arcs s)
    \<Longrightarrow> dom (arr_weak_arcs s') \<subseteq> insert w (dom (arr_weak_arcs s)) \<Longrightarrow> arr_grows_by s s'"
  unfolding arr_grows_by_def by blast

lemma arr_arc_default_grows: "arr_arc_default v s = Inr s' \<Longrightarrow> arr_grows_by s s'"
  by (rule arr_grows_by_strong [where v=v]) (auto simp: arr_arc_default_def split: option.splits)

lemma arr_arc_make_grows: "arr_arc_make v n x s = Inr s' \<Longrightarrow> arr_grows_by s s'"
  by (rule arr_grows_by_strong [where v=v]) (auto simp: arr_arc_make_def split: option.splits)

lemma arr_arc_copy_grows: "arr_arc_copy v u s = Inr s' \<Longrightarrow> arr_grows_by s s'"
  by (rule arr_grows_by_strong [where v=v])
     (auto simp: arr_arc_copy_def Let_def split: option.splits dest: arr_release_ref_frame arr_release_weak_ref_frame arr_add_ref_frame arr_add_weak_ref_frame)

lemma arr_arc_move_grows: "arr_arc_move v u s = Inr s' \<Longrightarrow> arr_grows_by s s'"
  by (rule arr_grows_by_strong [where v=v]) (auto simp: arr_arc_move_def split: option.splits if_splits)

lemma arr_arc_dtor_grows: "arr_arc_dtor v s = Inr s' \<Longrightarrow> arr_grows_by s s'"
  by (rule arr_grows_by_strong [where v=v])
     (auto simp: arr_arc_dtor_def split: option.splits sum.splits dest: arr_release_ref_frame arr_release_weak_ref_frame arr_add_ref_frame arr_add_weak_ref_frame)

lemma arr_arc_assign_grows: "arr_arc_assign v u s = Inr s' \<Longrightarrow> arr_grows_by s s'"
  by (rule arr_grows_by_strong [where v=v])
     (auto simp: arr_arc_assign_def Let_def split: option.splits sum.splits if_splits
           dest!: arr_release_ref_frame arr_release_weak_ref_frame arr_add_ref_frame arr_add_weak_ref_frame)

lemma arr_arc_move_assign_grows: "arr_arc_move_assign v u s = Inr s' \<Longrightarrow> arr_grows_by s s'"
  by (rule arr_grows_by_strong [where v=v])
     (auto simp: arr_arc_move_assign_def split: option.splits sum.splits if_splits
           dest: arr_release_ref_frame arr_release_weak_ref_frame arr_add_ref_frame arr_add_weak_ref_frame)

lemma arr_weak_default_grows: "arr_weak_default w s = Inr s' \<Longrightarrow> arr_grows_by s s'"
  by (rule arr_grows_by_weak [where w=w]) (auto simp: arr_weak_default_def split: option.splits)

lemma arr_weak_from_arc_grows: "arr_weak_from_arc w v s = Inr s' \<Longrightarrow> arr_grows_by s s'"
  by (rule arr_grows_by_weak [where w=w])
     (auto simp: arr_weak_from_arc_def Let_def split: option.splits dest: arr_release_ref_frame arr_release_weak_ref_frame arr_add_ref_frame arr_add_weak_ref_frame)

lemma arr_weak_copy_grows: "arr_weak_copy w u s = Inr s' \<Longrightarrow> arr_grows_by s s'"
  by (rule arr_grows_by_weak [where w=w])
     (auto simp: arr_weak_copy_def Let_def split: option.splits dest: arr_release_ref_frame arr_release_weak_ref_frame arr_add_ref_frame arr_add_weak_ref_frame)

lemma arr_weak_move_grows: "arr_weak_move w u s = Inr s' \<Longrightarrow> arr_grows_by s s'"
  by (rule arr_grows_by_weak [where w=w]) (auto simp: arr_weak_move_def split: option.splits if_splits)

lemma arr_weak_dtor_grows: "arr_weak_dtor w s = Inr s' \<Longrightarrow> arr_grows_by s s'"
  by (rule arr_grows_by_weak [where w=w])
     (auto simp: arr_weak_dtor_def split: option.splits sum.splits dest: arr_release_ref_frame arr_release_weak_ref_frame arr_add_ref_frame arr_add_weak_ref_frame)

lemma arr_weak_assign_grows: "arr_weak_assign w u s = Inr s' \<Longrightarrow> arr_grows_by s s'"
  by (rule arr_grows_by_weak [where w=w])
     (auto simp: arr_weak_assign_def Let_def split: option.splits sum.splits if_splits
           dest!: arr_release_ref_frame arr_release_weak_ref_frame arr_add_ref_frame arr_add_weak_ref_frame)

lemma arr_weak_move_assign_grows: "arr_weak_move_assign w u s = Inr s' \<Longrightarrow> arr_grows_by s s'"
  by (rule arr_grows_by_weak [where w=w])
     (auto simp: arr_weak_move_assign_def split: option.splits sum.splits if_splits
           dest: arr_release_ref_frame arr_release_weak_ref_frame arr_add_ref_frame arr_add_weak_ref_frame)

lemma arr_weak_lock_grows: "arr_weak_lock v w s = Inr s' \<Longrightarrow> arr_grows_by s s'"
  by (rule arr_grows_by_strong [where v=v])
     (auto simp: arr_weak_lock_def arr_arc_default_def arr_arc_from_block_def Let_def
           split: option.splits sum.splits if_splits dest: arr_release_ref_frame arr_release_weak_ref_frame arr_add_ref_frame arr_add_weak_ref_frame)


lemma arr_step_grows:
  assumes "arr_step c s = Inr s'"
  shows "arr_grows_by s s'"
proof (cases c)
  case (ArrArcDefault v)
  then have "arr_arc_default v s = Inr s'" using assms by simp
  then show ?thesis by (rule arr_arc_default_grows)
next
  case (ArrArcMake v n x)
  then have "arr_arc_make v n x s = Inr s'" using assms by simp
  then show ?thesis by (rule arr_arc_make_grows)
next
  case (ArrArcCopy v u)
  then have "arr_arc_copy v u s = Inr s'" using assms by simp
  then show ?thesis by (rule arr_arc_copy_grows)
next
  case (ArrArcMove v u)
  then have "arr_arc_move v u s = Inr s'" using assms by simp
  then show ?thesis by (rule arr_arc_move_grows)
next
  case (ArrArcDtor v)
  then have "arr_arc_dtor v s = Inr s'" using assms by simp
  then show ?thesis by (rule arr_arc_dtor_grows)
next
  case (ArrArcAssign v u)
  then have "arr_arc_assign v u s = Inr s'" using assms by simp
  then show ?thesis by (rule arr_arc_assign_grows)
next
  case (ArrArcMoveAssign v u)
  then have "arr_arc_move_assign v u s = Inr s'" using assms by simp
  then show ?thesis by (rule arr_arc_move_assign_grows)
next
  case (ArrWeakDefault w)
  then have "arr_weak_default w s = Inr s'" using assms by simp
  then show ?thesis by (rule arr_weak_default_grows)
next
  case (ArrWeakFromArc w v)
  then have "arr_weak_from_arc w v s = Inr s'" using assms by simp
  then show ?thesis by (rule arr_weak_from_arc_grows)
next
  case (ArrWeakCopy w u)
  then have "arr_weak_copy w u s = Inr s'" using assms by simp
  then show ?thesis by (rule arr_weak_copy_grows)
next
  case (ArrWeakMove w u)
  then have "arr_weak_move w u s = Inr s'" using assms by simp
  then show ?thesis by (rule arr_weak_move_grows)
next
  case (ArrWeakDtor w)
  then have "arr_weak_dtor w s = Inr s'" using assms by simp
  then show ?thesis by (rule arr_weak_dtor_grows)
next
  case (ArrWeakAssign w u)
  then have "arr_weak_assign w u s = Inr s'" using assms by simp
  then show ?thesis by (rule arr_weak_assign_grows)
next
  case (ArrWeakMoveAssign w u)
  then have "arr_weak_move_assign w u s = Inr s'" using assms by simp
  then show ?thesis by (rule arr_weak_move_assign_grows)
next
  case (ArrWeakLock v w)
  then have "arr_weak_lock v w s = Inr s'" using assms by simp
  then show ?thesis by (rule arr_weak_lock_grows)
qed

lemma arr_grows_handles:
  assumes "finite (dom (arr_arcs s))" and "finite (dom (arr_weak_arcs s))" and "arr_grows_by s s'"
  shows "arr_handles s' \<le> Suc (arr_handles s)"
proof -
  consider v where "dom (arr_arcs s') \<subseteq> insert v (dom (arr_arcs s))"
        "dom (arr_weak_arcs s') \<subseteq> dom (arr_weak_arcs s)"
    | w where "dom (arr_arcs s') \<subseteq> dom (arr_arcs s)"
        "dom (arr_weak_arcs s') \<subseteq> insert w (dom (arr_weak_arcs s))"
    using assms(3) unfolding arr_grows_by_def by blast
  then show ?thesis
  proof cases
    case 1
    have "card (dom (arr_arcs s')) \<le> Suc (card (dom (arr_arcs s)))"
      by (rule card_dom_grow [OF assms(1) 1(1)])
    moreover have "card (dom (arr_weak_arcs s')) \<le> card (dom (arr_weak_arcs s))"
      by (rule card_mono [OF assms(2) 1(2)])
    ultimately show ?thesis by (simp add: arr_handles_def)
  next
    case 2
    have "card (dom (arr_weak_arcs s')) \<le> Suc (card (dom (arr_weak_arcs s)))"
      by (rule card_dom_grow [OF assms(2) 2(2)])
    moreover have "card (dom (arr_arcs s')) \<le> card (dom (arr_arcs s))"
      by (rule card_mono [OF assms(1) 2(1)])
    ultimately show ?thesis by (simp add: arr_handles_def)
  qed
qed

lemma arr_inv_init: "arr_state_inv arr_init"
  by (simp add: arr_state_inv_def arr_init_def arr_block_ok_def owners_def)

lemma arr_handles_init: "arr_handles arr_init = 0"
  by (simp add: arr_handles_def arr_init_def)

lemma arr_run_inv:
  assumes "arr_state_inv s" and "arr_handles s + length cs < 2 ^ 64" and "arr_run cs s = Inr s'"
  shows "arr_state_inv s' \<and> arr_handles s' \<le> arr_handles s + length cs \<and> arr_fresh s \<le> arr_fresh s'"
  using assms
proof (induction cs arbitrary: s)
  case Nil
  then show ?case by simp
next
  case (Cons c cs)
  obtain s1 where s1: "arr_step c s = Inr s1" and r: "arr_run cs s1 = Inr s'"
    using Cons.prems(3) by (auto split: sum.splits)
  have h: "arr_handles s < 2 ^ 64 - 1" using Cons.prems(2) by simp
  have i1: "arr_state_inv s1" by (rule arr_step_inv [OF Cons.prems(1) h s1])
  have g: "arr_grows_by s s1" by (rule arr_step_grows [OF s1])
  have "finite (dom (arr_arcs s))" "finite (dom (arr_weak_arcs s))"
    using Cons.prems(1) by (simp_all add: arr_state_inv_def)
  then have h1: "arr_handles s1 \<le> Suc (arr_handles s)" using g by (rule arr_grows_handles)
  then have "arr_handles s1 + length cs < 2 ^ 64" using Cons.prems(2) by simp
  then have "arr_state_inv s' \<and> arr_handles s' \<le> arr_handles s1 + length cs \<and> arr_fresh s1 \<le> arr_fresh s'"
    using Cons.IH [OF i1 _ r] by simp
  moreover have "arr_fresh s \<le> arr_fresh s1" using g by (simp add: arr_grows_by_def)
  ultimately show ?case using h1 by simp
qed

lemma arr_run_append:
  "arr_run (xs @ ys) s = (case arr_run xs s of Inl e \<Rightarrow> Inl e | Inr s1 \<Rightarrow> arr_run ys s1)"
  by (induction xs arbitrary: s) (simp_all split: sum.splits)

lemma arr_reachable_inv:
  assumes "arr_run cs arr_init = Inr s" and "length cs < 2 ^ 64"
  shows "arr_state_inv s" and "arr_handles s \<le> length cs"
  using arr_run_inv [OF arr_inv_init _ assms(1)] assms(2) by (simp_all add: arr_handles_init)

section \<open>What one array operation can change\<close>

lemma arr_add_ref_effect:
  assumes "arr_add_ref q s = Inr s'"
  shows "\<exists>b. arr_blocks s q = Some b \<and> arr_arcs s' = arr_arcs s
           \<and> arr_weak_arcs s' = arr_weak_arcs s
           \<and> arr_fresh s' = arr_fresh s \<and> arr_trace s' = arr_trace s
           \<and> arr_buffers s' = arr_buffers s
           \<and> arr_blocks s' = (arr_blocks s)(q \<mapsto> b\<lparr>acb_ref_count := acb_ref_count b + 1\<rparr>)"
  using assms by (auto simp: arr_add_ref_def split: option.splits)

lemma arr_add_weak_ref_effect:
  assumes "arr_add_weak_ref q s = Inr s'"
  shows "\<exists>b. arr_blocks s q = Some b \<and> arr_arcs s' = arr_arcs s
           \<and> arr_weak_arcs s' = arr_weak_arcs s
           \<and> arr_fresh s' = arr_fresh s \<and> arr_trace s' = arr_trace s
           \<and> arr_buffers s' = arr_buffers s
           \<and> arr_blocks s' = (arr_blocks s)(q \<mapsto> b\<lparr>acb_weak_count := acb_weak_count b + 1\<rparr>)"
  using assms by (auto simp: arr_add_weak_ref_def split: option.splits)

lemma arr_delete_this_effect:
  assumes "arr_delete_this q s = Inr s'"
  shows "arr_arcs s' = arr_arcs s \<and> arr_weak_arcs s' = arr_weak_arcs s
           \<and> arr_fresh s' = arr_fresh s \<and> arr_blocks s' = (arr_blocks s)(q := None)
           \<and> (\<exists>es. arr_trace s' = arr_trace s @ es @ [BlockFreed q])"
proof -
  obtain b where b: "arr_blocks s q = Some b"
    using assms by (auto simp: arr_delete_this_def split: option.splits)
  show ?thesis
  proof (cases "acb_data b")
    case None
    then show ?thesis using assms b by (auto simp: arr_delete_this_def)
  next
    case (Some d)
    then obtain xs where xs: "arr_buffers s d = Some xs"
      using assms b by (auto simp: arr_delete_this_def arr_delete_data_def split: option.splits)
    have "arr_trace s' = arr_trace s @ [BufferFreed d] @ [BlockFreed q]"
      using assms b Some xs by (auto simp: arr_delete_this_def arr_delete_data_def)
    then have "\<exists>es. arr_trace s' = arr_trace s @ es @ [BlockFreed q]" by blast
    moreover have "arr_arcs s' = arr_arcs s \<and> arr_weak_arcs s' = arr_weak_arcs s
           \<and> arr_fresh s' = arr_fresh s \<and> arr_blocks s' = (arr_blocks s)(q := None)"
      using assms b Some xs by (auto simp: arr_delete_this_def arr_delete_data_def)
    ultimately show ?thesis by simp
  qed
qed

lemma arr_release_weak_ref_effect:
  assumes "arr_release_weak_ref q s = Inr s'"
  shows "\<exists>b. arr_blocks s q = Some b \<and> arr_arcs s' = arr_arcs s
           \<and> arr_weak_arcs s' = arr_weak_arcs s \<and> arr_fresh s' = arr_fresh s
           \<and> (if acb_weak_count b = 1
               then arr_blocks s' = (arr_blocks s)(q := None)
                  \<and> (\<exists>es. arr_trace s' = arr_trace s @ es @ [BlockFreed q])
               else arr_blocks s' =
                      (arr_blocks s)(q \<mapsto> b\<lparr>acb_weak_count := acb_weak_count b - 1\<rparr>)
                  \<and> arr_trace s' = arr_trace s)"
proof -
  obtain b where b: "arr_blocks s q = Some b"
    using assms by (auto simp: arr_release_weak_ref_def split: option.splits)
  show ?thesis
  proof (cases "acb_weak_count b = 1")
    case False
    then show ?thesis using assms b by (auto simp: arr_release_weak_ref_def)
  next
    case True
    define s1 where
      "s1 = s\<lparr>arr_blocks := (arr_blocks s)(q \<mapsto> b\<lparr>acb_weak_count := acb_weak_count b - 1\<rparr>)\<rparr>"
    have "arr_delete_this q s1 = Inr s'"
      using assms b True by (simp add: arr_release_weak_ref_def s1_def)
    from arr_delete_this_effect [OF this] show ?thesis
      using b True by (simp add: s1_def)
  qed
qed

lemma arr_release_ref_effect:
  assumes "arr_release_ref q s = Inr s'"
  shows "\<exists>b. arr_blocks s q = Some b \<and> arr_arcs s' = arr_arcs s
           \<and> arr_weak_arcs s' = arr_weak_arcs s \<and> arr_fresh s' = arr_fresh s
           \<and> (if acb_ref_count b = 1 \<and> acb_weak_count b = 1
               then arr_blocks s' = (arr_blocks s)(q := None)
                  \<and> (\<exists>es. arr_trace s' = arr_trace s @ es @ [BlockFreed q])
               else (\<exists>b'. arr_blocks s' = (arr_blocks s)(q \<mapsto> b')))"
proof -
  obtain b where b: "arr_blocks s q = Some b"
    using assms by (auto simp: arr_release_ref_def split: option.splits)
  show ?thesis
  proof (cases "acb_ref_count b = 1")
    case False
    then show ?thesis using assms b by (auto simp: arr_release_ref_def)
  next
    case True
    define b1 where "b1 = b\<lparr>acb_ref_count := acb_ref_count b - 1\<rparr>"
    define s1 where "s1 = s\<lparr>arr_blocks := (arr_blocks s)(q \<mapsto> b1)\<rparr>"
    show ?thesis
    proof (cases "acb_data b")
      case None
      then have r: "arr_release_weak_ref q s1 = Inr s'"
        using assms b True by (simp add: arr_release_ref_def s1_def b1_def Let_def)
      from arr_release_weak_ref_effect [OF r] show ?thesis
        using b True by (auto simp: s1_def b1_def split: if_splits)
    next
      case (Some d)
      then obtain s2 where s2: "arr_delete_data d s1 = Inr s2"
          and r: "arr_release_weak_ref q
                    (s2\<lparr>arr_blocks := (arr_blocks s2)(q \<mapsto> b1\<lparr>acb_data := None\<rparr>)\<rparr>) = Inr s'"
        using assms b True
        by (auto simp: arr_release_ref_def s1_def b1_def Let_def split: sum.splits)
      have f2: "arr_arcs s2 = arr_arcs s" "arr_weak_arcs s2 = arr_weak_arcs s"
          "arr_fresh s2 = arr_fresh s" "arr_blocks s2 = arr_blocks s1"
          "arr_trace s2 = arr_trace s @ [BufferFreed d]"
        using s2 by (auto simp: arr_delete_data_def s1_def split: option.splits)
      from arr_release_weak_ref_effect [OF r] show ?thesis
        using b True f2 by (auto simp: s1_def b1_def split: if_splits)
    qed
  qed
qed

lemma arr_arc_default_frees:
  assumes "arr_arc_default v s = Inr s'" and "arr_blocks s p = Some b" and "arr_blocks s' p = None"
  shows "acb_weak_count b = 1 \<and> (\<exists>es. arr_trace s' = arr_trace s @ es @ [BlockFreed p])"
  using assms
  by (auto simp: arr_arc_default_def Let_def split: option.splits sum.splits if_splits
           dest!: arr_release_ref_effect arr_release_weak_ref_effect arr_add_ref_effect arr_add_weak_ref_effect)

lemma arr_arc_make_frees:
  assumes "arr_arc_make v n x s = Inr s'" and "arr_blocks s p = Some b" and "arr_blocks s' p = None"
  shows "acb_weak_count b = 1 \<and> (\<exists>es. arr_trace s' = arr_trace s @ es @ [BlockFreed p])"
  using assms
  by (auto simp: arr_arc_make_def Let_def split: option.splits sum.splits if_splits
           dest!: arr_release_ref_effect arr_release_weak_ref_effect arr_add_ref_effect arr_add_weak_ref_effect)

lemma arr_arc_copy_frees:
  assumes "arr_arc_copy v u s = Inr s'" and "arr_blocks s p = Some b" and "arr_blocks s' p = None"
  shows "acb_weak_count b = 1 \<and> (\<exists>es. arr_trace s' = arr_trace s @ es @ [BlockFreed p])"
  using assms
  by (auto simp: arr_arc_copy_def Let_def split: option.splits sum.splits if_splits
           dest!: arr_release_ref_effect arr_release_weak_ref_effect arr_add_ref_effect arr_add_weak_ref_effect)

lemma arr_arc_move_frees:
  assumes "arr_arc_move v u s = Inr s'" and "arr_blocks s p = Some b" and "arr_blocks s' p = None"
  shows "acb_weak_count b = 1 \<and> (\<exists>es. arr_trace s' = arr_trace s @ es @ [BlockFreed p])"
  using assms
  by (auto simp: arr_arc_move_def Let_def split: option.splits sum.splits if_splits
           dest!: arr_release_ref_effect arr_release_weak_ref_effect arr_add_ref_effect arr_add_weak_ref_effect)

lemma arr_arc_dtor_frees:
  assumes "arr_arc_dtor v s = Inr s'" and "arr_blocks s p = Some b" and "arr_blocks s' p = None"
  shows "acb_weak_count b = 1 \<and> (\<exists>es. arr_trace s' = arr_trace s @ es @ [BlockFreed p])"
  using assms
  by (auto simp: arr_arc_dtor_def Let_def split: option.splits sum.splits if_splits
           dest!: arr_release_ref_effect arr_release_weak_ref_effect arr_add_ref_effect arr_add_weak_ref_effect)

lemma arr_arc_assign_frees:
  assumes "arr_arc_assign v u s = Inr s'" and "arr_blocks s p = Some b" and "arr_blocks s' p = None"
  shows "acb_weak_count b = 1 \<and> (\<exists>es. arr_trace s' = arr_trace s @ es @ [BlockFreed p])"
  using assms
  by (auto simp: arr_arc_assign_def Let_def split: option.splits sum.splits if_splits
           dest!: arr_release_ref_effect arr_release_weak_ref_effect arr_add_ref_effect arr_add_weak_ref_effect)

lemma arr_arc_move_assign_frees:
  assumes "arr_arc_move_assign v u s = Inr s'" and "arr_blocks s p = Some b" and "arr_blocks s' p = None"
  shows "acb_weak_count b = 1 \<and> (\<exists>es. arr_trace s' = arr_trace s @ es @ [BlockFreed p])"
  using assms
  by (auto simp: arr_arc_move_assign_def Let_def split: option.splits sum.splits if_splits
           dest!: arr_release_ref_effect arr_release_weak_ref_effect arr_add_ref_effect arr_add_weak_ref_effect)

lemma arr_weak_default_frees:
  assumes "arr_weak_default w s = Inr s'" and "arr_blocks s p = Some b" and "arr_blocks s' p = None"
  shows "acb_weak_count b = 1 \<and> (\<exists>es. arr_trace s' = arr_trace s @ es @ [BlockFreed p])"
  using assms
  by (auto simp: arr_weak_default_def Let_def split: option.splits sum.splits if_splits
           dest!: arr_release_ref_effect arr_release_weak_ref_effect arr_add_ref_effect arr_add_weak_ref_effect)

lemma arr_weak_from_arc_frees:
  assumes "arr_weak_from_arc w v s = Inr s'" and "arr_blocks s p = Some b" and "arr_blocks s' p = None"
  shows "acb_weak_count b = 1 \<and> (\<exists>es. arr_trace s' = arr_trace s @ es @ [BlockFreed p])"
  using assms
  by (auto simp: arr_weak_from_arc_def Let_def split: option.splits sum.splits if_splits
           dest!: arr_release_ref_effect arr_release_weak_ref_effect arr_add_ref_effect arr_add_weak_ref_effect)

lemma arr_weak_copy_frees:
  assumes "arr_weak_copy w u s = Inr s'" and "arr_blocks s p = Some b" and "arr_blocks s' p = None"
  shows "acb_weak_count b = 1 \<and> (\<exists>es. arr_trace s' = arr_trace s @ es @ [BlockFreed p])"
  using assms
  by (auto simp: arr_weak_copy_def Let_def split: option.splits sum.splits if_splits
           dest!: arr_release_ref_effect arr_release_weak_ref_effect arr_add_ref_effect arr_add_weak_ref_effect)

lemma arr_weak_move_frees:
  assumes "arr_weak_move w u s = Inr s'" and "arr_blocks s p = Some b" and "arr_blocks s' p = None"
  shows "acb_weak_count b = 1 \<and> (\<exists>es. arr_trace s' = arr_trace s @ es @ [BlockFreed p])"
  using assms
  by (auto simp: arr_weak_move_def Let_def split: option.splits sum.splits if_splits
           dest!: arr_release_ref_effect arr_release_weak_ref_effect arr_add_ref_effect arr_add_weak_ref_effect)

lemma arr_weak_dtor_frees:
  assumes "arr_weak_dtor w s = Inr s'" and "arr_blocks s p = Some b" and "arr_blocks s' p = None"
  shows "acb_weak_count b = 1 \<and> (\<exists>es. arr_trace s' = arr_trace s @ es @ [BlockFreed p])"
  using assms
  by (auto simp: arr_weak_dtor_def Let_def split: option.splits sum.splits if_splits
           dest!: arr_release_ref_effect arr_release_weak_ref_effect arr_add_ref_effect arr_add_weak_ref_effect)

lemma arr_weak_assign_frees:
  assumes "arr_weak_assign w u s = Inr s'" and "arr_blocks s p = Some b" and "arr_blocks s' p = None"
  shows "acb_weak_count b = 1 \<and> (\<exists>es. arr_trace s' = arr_trace s @ es @ [BlockFreed p])"
  using assms
  by (auto simp: arr_weak_assign_def Let_def split: option.splits sum.splits if_splits
           dest!: arr_release_ref_effect arr_release_weak_ref_effect arr_add_ref_effect arr_add_weak_ref_effect)

lemma arr_weak_move_assign_frees:
  assumes "arr_weak_move_assign w u s = Inr s'" and "arr_blocks s p = Some b" and "arr_blocks s' p = None"
  shows "acb_weak_count b = 1 \<and> (\<exists>es. arr_trace s' = arr_trace s @ es @ [BlockFreed p])"
  using assms
  by (auto simp: arr_weak_move_assign_def Let_def split: option.splits sum.splits if_splits
           dest!: arr_release_ref_effect arr_release_weak_ref_effect arr_add_ref_effect arr_add_weak_ref_effect)

lemma arr_weak_lock_frees:
  assumes "arr_weak_lock v w s = Inr s'" and "arr_blocks s p = Some b" and "arr_blocks s' p = None"
  shows "acb_weak_count b = 1 \<and> (\<exists>es. arr_trace s' = arr_trace s @ es @ [BlockFreed p])"
  using assms
  by (auto simp: arr_weak_lock_def arr_arc_default_def arr_arc_from_block_def arr_ref_count_def Let_def split: option.splits sum.splits if_splits
           dest!: arr_release_ref_effect arr_release_weak_ref_effect arr_add_ref_effect arr_add_weak_ref_effect)

lemma arr_step_frees:
  assumes "arr_step c s = Inr s'" and "arr_blocks s p = Some b" and "arr_blocks s' p = None"
  shows "acb_weak_count b = 1 \<and> (\<exists>es. arr_trace s' = arr_trace s @ es @ [BlockFreed p])"
proof (cases c)
  case (ArrArcDefault v)
  then have "arr_arc_default v s = Inr s'" using assms(1) by simp
  then show ?thesis using assms(2,3) by (rule arr_arc_default_frees)
next
  case (ArrArcMake v n x)
  then have "arr_arc_make v n x s = Inr s'" using assms(1) by simp
  then show ?thesis using assms(2,3) by (rule arr_arc_make_frees)
next
  case (ArrArcCopy v u)
  then have "arr_arc_copy v u s = Inr s'" using assms(1) by simp
  then show ?thesis using assms(2,3) by (rule arr_arc_copy_frees)
next
  case (ArrArcMove v u)
  then have "arr_arc_move v u s = Inr s'" using assms(1) by simp
  then show ?thesis using assms(2,3) by (rule arr_arc_move_frees)
next
  case (ArrArcDtor v)
  then have "arr_arc_dtor v s = Inr s'" using assms(1) by simp
  then show ?thesis using assms(2,3) by (rule arr_arc_dtor_frees)
next
  case (ArrArcAssign v u)
  then have "arr_arc_assign v u s = Inr s'" using assms(1) by simp
  then show ?thesis using assms(2,3) by (rule arr_arc_assign_frees)
next
  case (ArrArcMoveAssign v u)
  then have "arr_arc_move_assign v u s = Inr s'" using assms(1) by simp
  then show ?thesis using assms(2,3) by (rule arr_arc_move_assign_frees)
next
  case (ArrWeakDefault w)
  then have "arr_weak_default w s = Inr s'" using assms(1) by simp
  then show ?thesis using assms(2,3) by (rule arr_weak_default_frees)
next
  case (ArrWeakFromArc w v)
  then have "arr_weak_from_arc w v s = Inr s'" using assms(1) by simp
  then show ?thesis using assms(2,3) by (rule arr_weak_from_arc_frees)
next
  case (ArrWeakCopy w u)
  then have "arr_weak_copy w u s = Inr s'" using assms(1) by simp
  then show ?thesis using assms(2,3) by (rule arr_weak_copy_frees)
next
  case (ArrWeakMove w u)
  then have "arr_weak_move w u s = Inr s'" using assms(1) by simp
  then show ?thesis using assms(2,3) by (rule arr_weak_move_frees)
next
  case (ArrWeakDtor w)
  then have "arr_weak_dtor w s = Inr s'" using assms(1) by simp
  then show ?thesis using assms(2,3) by (rule arr_weak_dtor_frees)
next
  case (ArrWeakAssign w u)
  then have "arr_weak_assign w u s = Inr s'" using assms(1) by simp
  then show ?thesis using assms(2,3) by (rule arr_weak_assign_frees)
next
  case (ArrWeakMoveAssign w u)
  then have "arr_weak_move_assign w u s = Inr s'" using assms(1) by simp
  then show ?thesis using assms(2,3) by (rule arr_weak_move_assign_frees)
next
  case (ArrWeakLock v w)
  then have "arr_weak_lock v w s = Inr s'" using assms(1) by simp
  then show ?thesis using assms(2,3) by (rule arr_weak_lock_frees)
qed

lemma arr_arc_default_origin:
  assumes "arr_arc_default v s = Inr s'" and "arr_arcs s' y = Some (Some p)"
  shows "(\<exists>u. arr_arcs s u = Some (Some p)) \<or> p = arr_fresh s
       \<or> (\<exists>b. arr_blocks s p = Some b \<and> acb_ref_count b \<noteq> 0)"
  using assms
  by (auto simp: arr_arc_default_def Let_def split: option.splits sum.splits if_splits
           dest!: arr_release_ref_effect arr_release_weak_ref_effect arr_add_ref_effect arr_add_weak_ref_effect)

lemma arr_arc_make_origin:
  assumes "arr_arc_make v n x s = Inr s'" and "arr_arcs s' y = Some (Some p)"
  shows "(\<exists>u. arr_arcs s u = Some (Some p)) \<or> p = arr_fresh s
       \<or> (\<exists>b. arr_blocks s p = Some b \<and> acb_ref_count b \<noteq> 0)"
  using assms
  by (auto simp: arr_arc_make_def Let_def split: option.splits sum.splits if_splits
           dest!: arr_release_ref_effect arr_release_weak_ref_effect arr_add_ref_effect arr_add_weak_ref_effect)

lemma arr_arc_copy_origin:
  assumes "arr_arc_copy v u s = Inr s'" and "arr_arcs s' y = Some (Some p)"
  shows "(\<exists>u. arr_arcs s u = Some (Some p)) \<or> p = arr_fresh s
       \<or> (\<exists>b. arr_blocks s p = Some b \<and> acb_ref_count b \<noteq> 0)"
  using assms
  by (auto simp: arr_arc_copy_def Let_def split: option.splits sum.splits if_splits
           dest!: arr_release_ref_effect arr_release_weak_ref_effect arr_add_ref_effect arr_add_weak_ref_effect)

lemma arr_arc_move_origin:
  assumes "arr_arc_move v u s = Inr s'" and "arr_arcs s' y = Some (Some p)"
  shows "(\<exists>u. arr_arcs s u = Some (Some p)) \<or> p = arr_fresh s
       \<or> (\<exists>b. arr_blocks s p = Some b \<and> acb_ref_count b \<noteq> 0)"
  using assms
  by (auto simp: arr_arc_move_def Let_def split: option.splits sum.splits if_splits
           dest!: arr_release_ref_effect arr_release_weak_ref_effect arr_add_ref_effect arr_add_weak_ref_effect)

lemma arr_arc_dtor_origin:
  assumes "arr_arc_dtor v s = Inr s'" and "arr_arcs s' y = Some (Some p)"
  shows "(\<exists>u. arr_arcs s u = Some (Some p)) \<or> p = arr_fresh s
       \<or> (\<exists>b. arr_blocks s p = Some b \<and> acb_ref_count b \<noteq> 0)"
  using assms
  by (auto simp: arr_arc_dtor_def Let_def split: option.splits sum.splits if_splits
           dest!: arr_release_ref_effect arr_release_weak_ref_effect arr_add_ref_effect arr_add_weak_ref_effect)

lemma arr_arc_assign_origin:
  assumes "arr_arc_assign v u s = Inr s'" and "arr_arcs s' y = Some (Some p)"
  shows "(\<exists>u. arr_arcs s u = Some (Some p)) \<or> p = arr_fresh s
       \<or> (\<exists>b. arr_blocks s p = Some b \<and> acb_ref_count b \<noteq> 0)"
  using assms
  by (auto simp: arr_arc_assign_def Let_def split: option.splits sum.splits if_splits
           dest!: arr_release_ref_effect arr_release_weak_ref_effect arr_add_ref_effect arr_add_weak_ref_effect)

lemma arr_arc_move_assign_origin:
  assumes "arr_arc_move_assign v u s = Inr s'" and "arr_arcs s' y = Some (Some p)"
  shows "(\<exists>u. arr_arcs s u = Some (Some p)) \<or> p = arr_fresh s
       \<or> (\<exists>b. arr_blocks s p = Some b \<and> acb_ref_count b \<noteq> 0)"
  using assms
  by (auto simp: arr_arc_move_assign_def Let_def split: option.splits sum.splits if_splits
           dest!: arr_release_ref_effect arr_release_weak_ref_effect arr_add_ref_effect arr_add_weak_ref_effect)

lemma arr_weak_default_origin:
  assumes "arr_weak_default w s = Inr s'" and "arr_arcs s' y = Some (Some p)"
  shows "(\<exists>u. arr_arcs s u = Some (Some p)) \<or> p = arr_fresh s
       \<or> (\<exists>b. arr_blocks s p = Some b \<and> acb_ref_count b \<noteq> 0)"
  using assms
  by (auto simp: arr_weak_default_def Let_def split: option.splits sum.splits if_splits
           dest!: arr_release_ref_effect arr_release_weak_ref_effect arr_add_ref_effect arr_add_weak_ref_effect)

lemma arr_weak_from_arc_origin:
  assumes "arr_weak_from_arc w v s = Inr s'" and "arr_arcs s' y = Some (Some p)"
  shows "(\<exists>u. arr_arcs s u = Some (Some p)) \<or> p = arr_fresh s
       \<or> (\<exists>b. arr_blocks s p = Some b \<and> acb_ref_count b \<noteq> 0)"
  using assms
  by (auto simp: arr_weak_from_arc_def Let_def split: option.splits sum.splits if_splits
           dest!: arr_release_ref_effect arr_release_weak_ref_effect arr_add_ref_effect arr_add_weak_ref_effect)

lemma arr_weak_copy_origin:
  assumes "arr_weak_copy w u s = Inr s'" and "arr_arcs s' y = Some (Some p)"
  shows "(\<exists>u. arr_arcs s u = Some (Some p)) \<or> p = arr_fresh s
       \<or> (\<exists>b. arr_blocks s p = Some b \<and> acb_ref_count b \<noteq> 0)"
  using assms
  by (auto simp: arr_weak_copy_def Let_def split: option.splits sum.splits if_splits
           dest!: arr_release_ref_effect arr_release_weak_ref_effect arr_add_ref_effect arr_add_weak_ref_effect)

lemma arr_weak_move_origin:
  assumes "arr_weak_move w u s = Inr s'" and "arr_arcs s' y = Some (Some p)"
  shows "(\<exists>u. arr_arcs s u = Some (Some p)) \<or> p = arr_fresh s
       \<or> (\<exists>b. arr_blocks s p = Some b \<and> acb_ref_count b \<noteq> 0)"
  using assms
  by (auto simp: arr_weak_move_def Let_def split: option.splits sum.splits if_splits
           dest!: arr_release_ref_effect arr_release_weak_ref_effect arr_add_ref_effect arr_add_weak_ref_effect)

lemma arr_weak_dtor_origin:
  assumes "arr_weak_dtor w s = Inr s'" and "arr_arcs s' y = Some (Some p)"
  shows "(\<exists>u. arr_arcs s u = Some (Some p)) \<or> p = arr_fresh s
       \<or> (\<exists>b. arr_blocks s p = Some b \<and> acb_ref_count b \<noteq> 0)"
  using assms
  by (auto simp: arr_weak_dtor_def Let_def split: option.splits sum.splits if_splits
           dest!: arr_release_ref_effect arr_release_weak_ref_effect arr_add_ref_effect arr_add_weak_ref_effect)

lemma arr_weak_assign_origin:
  assumes "arr_weak_assign w u s = Inr s'" and "arr_arcs s' y = Some (Some p)"
  shows "(\<exists>u. arr_arcs s u = Some (Some p)) \<or> p = arr_fresh s
       \<or> (\<exists>b. arr_blocks s p = Some b \<and> acb_ref_count b \<noteq> 0)"
  using assms
  by (auto simp: arr_weak_assign_def Let_def split: option.splits sum.splits if_splits
           dest!: arr_release_ref_effect arr_release_weak_ref_effect arr_add_ref_effect arr_add_weak_ref_effect)

lemma arr_weak_move_assign_origin:
  assumes "arr_weak_move_assign w u s = Inr s'" and "arr_arcs s' y = Some (Some p)"
  shows "(\<exists>u. arr_arcs s u = Some (Some p)) \<or> p = arr_fresh s
       \<or> (\<exists>b. arr_blocks s p = Some b \<and> acb_ref_count b \<noteq> 0)"
  using assms
  by (auto simp: arr_weak_move_assign_def Let_def split: option.splits sum.splits if_splits
           dest!: arr_release_ref_effect arr_release_weak_ref_effect arr_add_ref_effect arr_add_weak_ref_effect)

lemma arr_weak_lock_origin:
  assumes "arr_weak_lock v w s = Inr s'" and "arr_arcs s' y = Some (Some p)"
  shows "(\<exists>u. arr_arcs s u = Some (Some p)) \<or> p = arr_fresh s
       \<or> (\<exists>b. arr_blocks s p = Some b \<and> acb_ref_count b \<noteq> 0)"
  using assms
  by (auto simp: arr_weak_lock_def arr_arc_default_def arr_arc_from_block_def arr_ref_count_def Let_def split: option.splits sum.splits if_splits
           dest!: arr_release_ref_effect arr_release_weak_ref_effect arr_add_ref_effect arr_add_weak_ref_effect)

lemma arr_step_origin:
  assumes "arr_step c s = Inr s'" and "arr_arcs s' y = Some (Some p)"
  shows "(\<exists>u. arr_arcs s u = Some (Some p)) \<or> p = arr_fresh s
       \<or> (\<exists>b. arr_blocks s p = Some b \<and> acb_ref_count b \<noteq> 0)"
proof (cases c)
  case (ArrArcDefault v)
  then have "arr_arc_default v s = Inr s'" using assms(1) by simp
  then show ?thesis using assms(2) by (rule arr_arc_default_origin)
next
  case (ArrArcMake v n x)
  then have "arr_arc_make v n x s = Inr s'" using assms(1) by simp
  then show ?thesis using assms(2) by (rule arr_arc_make_origin)
next
  case (ArrArcCopy v u)
  then have "arr_arc_copy v u s = Inr s'" using assms(1) by simp
  then show ?thesis using assms(2) by (rule arr_arc_copy_origin)
next
  case (ArrArcMove v u)
  then have "arr_arc_move v u s = Inr s'" using assms(1) by simp
  then show ?thesis using assms(2) by (rule arr_arc_move_origin)
next
  case (ArrArcDtor v)
  then have "arr_arc_dtor v s = Inr s'" using assms(1) by simp
  then show ?thesis using assms(2) by (rule arr_arc_dtor_origin)
next
  case (ArrArcAssign v u)
  then have "arr_arc_assign v u s = Inr s'" using assms(1) by simp
  then show ?thesis using assms(2) by (rule arr_arc_assign_origin)
next
  case (ArrArcMoveAssign v u)
  then have "arr_arc_move_assign v u s = Inr s'" using assms(1) by simp
  then show ?thesis using assms(2) by (rule arr_arc_move_assign_origin)
next
  case (ArrWeakDefault w)
  then have "arr_weak_default w s = Inr s'" using assms(1) by simp
  then show ?thesis using assms(2) by (rule arr_weak_default_origin)
next
  case (ArrWeakFromArc w v)
  then have "arr_weak_from_arc w v s = Inr s'" using assms(1) by simp
  then show ?thesis using assms(2) by (rule arr_weak_from_arc_origin)
next
  case (ArrWeakCopy w u)
  then have "arr_weak_copy w u s = Inr s'" using assms(1) by simp
  then show ?thesis using assms(2) by (rule arr_weak_copy_origin)
next
  case (ArrWeakMove w u)
  then have "arr_weak_move w u s = Inr s'" using assms(1) by simp
  then show ?thesis using assms(2) by (rule arr_weak_move_origin)
next
  case (ArrWeakDtor w)
  then have "arr_weak_dtor w s = Inr s'" using assms(1) by simp
  then show ?thesis using assms(2) by (rule arr_weak_dtor_origin)
next
  case (ArrWeakAssign w u)
  then have "arr_weak_assign w u s = Inr s'" using assms(1) by simp
  then show ?thesis using assms(2) by (rule arr_weak_assign_origin)
next
  case (ArrWeakMoveAssign w u)
  then have "arr_weak_move_assign w u s = Inr s'" using assms(1) by simp
  then show ?thesis using assms(2) by (rule arr_weak_move_assign_origin)
next
  case (ArrWeakLock v w)
  then have "arr_weak_lock v w s = Inr s'" using assms(1) by simp
  then show ?thesis using assms(2) by (rule arr_weak_lock_origin)
qed

section \<open>Consequences of the array invariant\<close>

lemma arr_inv_live_iff:
  assumes "arr_state_inv s" and "p < arr_fresh s"
  shows "arr_blocks s p = None \<longleftrightarrow>
           (\<forall>v. arr_arcs s v \<noteq> Some (Some p)) \<and> (\<forall>w. arr_weak_arcs s w \<noteq> Some (Some p))"
proof -
  have fin: "finite (dom (arr_arcs s))" "finite (dom (arr_weak_arcs s))"
    using assms(1) by (simp_all add: arr_state_inv_def)
  have ok: "arr_block_ok p (arr_fresh s) (card (owners (arr_arcs s) p)) (card (owners (arr_weak_arcs s) p))
              (arr_trace s) (arr_blocks s p) (arr_buffers s (Suc p))"
    by (rule arr_inv_block [OF assms(1)])
  show ?thesis
  proof (cases "arr_blocks s p")
    case None
    then show ?thesis using ok fin by (simp add: arr_block_ok_def card_owners_zero_iff)
  next
    case (Some b)
    have "card (owners (arr_arcs s) p) \<noteq> 0 \<or> card (owners (arr_weak_arcs s) p) \<noteq> 0"
      using ok Some by (auto simp: arr_block_ok_def split: if_splits)
    then show ?thesis using Some fin by (auto simp: card_owners_zero_iff)
  qed
qed


lemma arr_inv_counts:
  assumes "arr_state_inv s" and "arr_blocks s p = Some b"
  shows "unat (acb_ref_count b) = card {v. arr_arcs s v = Some (Some p)}"
    and "unat (acb_weak_count b) = card {w. arr_weak_arcs s w = Some (Some p)}
           + (if acb_ref_count b = 0 then 0 else 1)"
    and "acb_weak_count b \<noteq> 0" and "p < arr_fresh s" and "even p"
    and "BlockFreed p \<notin> set (arr_trace s)"
    and "acb_data b = (if acb_ref_count b = 0 then None else Some (Suc p))"
    and "(arr_buffers s (Suc p) = None) = (acb_ref_count b = 0)"
    and "count_list (arr_trace s) (BufferFreed (Suc p)) = (if acb_ref_count b = 0 then 1 else 0)"
proof -
  have ok: "arr_block_ok p (arr_fresh s) (card (owners (arr_arcs s) p))
              (card (owners (arr_weak_arcs s) p)) (arr_trace s) (Some b) (arr_buffers s (Suc p))"
    using arr_inv_block [OF assms(1), of p] assms(2) by simp
  show r: "unat (acb_ref_count b) = card {v. arr_arcs s v = Some (Some p)}"
    using ok by (simp add: arr_block_ok_def owners_def)
  have z: "(acb_ref_count b = 0) = (card (owners (arr_arcs s) p) = 0)"
    using ok by (auto simp: arr_block_ok_def unat_eq_zero)
  show "unat (acb_weak_count b) = card {w. arr_weak_arcs s w = Some (Some p)}
           + (if acb_ref_count b = 0 then 0 else 1)"
    using ok unfolding z by (simp add: arr_block_ok_def owners_def)
  show "acb_weak_count b \<noteq> 0" using ok by (auto simp: arr_block_ok_def)
  show "p < arr_fresh s" using ok by (simp add: arr_block_ok_def)
  show "even p" using ok by (simp add: arr_block_ok_def)
  show "BlockFreed p \<notin> set (arr_trace s)"
    using ok by (simp add: arr_block_ok_def count_list_0_iff)
  show "acb_data b = (if acb_ref_count b = 0 then None else Some (Suc p))"
    using ok unfolding z by (simp add: arr_block_ok_def)
  show "(arr_buffers s (Suc p) = None) = (acb_ref_count b = 0)"
    using ok unfolding z by (simp add: arr_block_ok_def)
  show "count_list (arr_trace s) (BufferFreed (Suc p)) = (if acb_ref_count b = 0 then 1 else 0)"
    using ok unfolding z by (simp add: arr_block_ok_def)
qed

lemma arr_inv_freed_count:
  assumes "arr_state_inv s"
  shows "count_list (arr_trace s) (BlockFreed p)
           = (if even p \<and> p < arr_fresh s \<and> arr_blocks s p = None then 1 else 0)"
    and "arr_blocks s p = None \<Longrightarrow> arr_buffers s (Suc p) = None"
    and "arr_blocks s p = None \<Longrightarrow> count_list (arr_trace s) (BufferFreed (Suc p))
           = (if even p \<and> p < arr_fresh s then 1 else 0)"
  using arr_inv_block [OF assms, of p]
  by (auto simp: arr_block_ok_def split: option.splits)

lemma arr_step_no_resurrect:
  assumes "arr_state_inv s" and "arr_step c s = Inr s'" and "p < arr_fresh s"
      and "\<forall>v. arr_arcs s v \<noteq> Some (Some p)"
  shows "\<forall>v. arr_arcs s' v \<noteq> Some (Some p)"
proof (intro allI notI)
  fix y assume y: "arr_arcs s' y = Some (Some p)"
  have fin: "finite (dom (arr_arcs s))" using assms(1) by (simp add: arr_state_inv_def)
  from arr_step_origin [OF assms(2) y] assms(3,4)
  obtain b where b: "arr_blocks s p = Some b" and nz: "acb_ref_count b \<noteq> 0" by auto
  have "unat (acb_ref_count b) = card {v. arr_arcs s v = Some (Some p)}"
    by (rule arr_inv_counts(1) [OF assms(1) b])
  moreover have "{v. arr_arcs s v = Some (Some p)} = {}" using assms(4) by auto
  ultimately have "acb_ref_count b = 0" by (simp add: unat_eq_zero)
  then show False using nz by simp
qed

lemma arr_run_no_resurrect:
  assumes "arr_state_inv s" and "arr_handles s + length cs < 2 ^ 64" and "arr_run cs s = Inr s'"
      and "p < arr_fresh s" and "\<forall>v. arr_arcs s v \<noteq> Some (Some p)"
  shows "\<forall>v. arr_arcs s' v \<noteq> Some (Some p)"
  using assms
proof (induction cs arbitrary: s)
  case Nil
  then show ?case by simp
next
  case (Cons c cs)
  obtain s1 where s1: "arr_step c s = Inr s1" and r: "arr_run cs s1 = Inr s'"
    using Cons.prems(3) by (auto split: sum.splits)
  have h: "arr_handles s < 2 ^ 64 - 1" using Cons.prems(2) by simp
  have i1: "arr_state_inv s1" by (rule arr_step_inv [OF Cons.prems(1) h s1])
  have g: "arr_grows_by s s1" by (rule arr_step_grows [OF s1])
  have "finite (dom (arr_arcs s))" "finite (dom (arr_weak_arcs s))"
    using Cons.prems(1) by (simp_all add: arr_state_inv_def)
  then have "arr_handles s1 \<le> Suc (arr_handles s)" using g by (rule arr_grows_handles)
  then have h1: "arr_handles s1 + length cs < 2 ^ 64" using Cons.prems(2) by simp
  have f1: "p < arr_fresh s1" using g Cons.prems(4) by (simp add: arr_grows_by_def)
  have n1: "\<forall>v. arr_arcs s1 v \<noteq> Some (Some p)"
    by (rule arr_step_no_resurrect [OF Cons.prems(1) s1 Cons.prems(4,5)])
  show ?case by (rule Cons.IH [OF i1 h1 r f1 n1])
qed

section \<open>Evaluating concrete programs\<close>


lemmas op_defs = init_def arc_default_def arc_make_def arc_copy_def arc_move_def arc_dtor_def
  arc_assign_def arc_move_assign_def arc_from_block_def weak_default_def weak_from_arc_def
  weak_copy_def weak_move_def weak_dtor_def weak_assign_def weak_move_assign_def weak_lock_def
  add_ref_def add_weak_ref_def release_ref_def release_weak_ref_def delete_this_def ref_count_def

lemmas arr_op_defs = arr_init_def arr_arc_default_def arr_arc_make_def arr_arc_copy_def
  arr_arc_move_def arr_arc_dtor_def arr_arc_assign_def arr_arc_move_assign_def
  arr_arc_from_block_def arr_weak_default_def arr_weak_from_arc_def arr_weak_copy_def
  arr_weak_move_def arr_weak_dtor_def arr_weak_assign_def arr_weak_move_assign_def
  arr_weak_lock_def arr_add_ref_def arr_add_weak_ref_def arr_release_ref_def
  arr_release_weak_ref_def arr_delete_this_def arr_delete_data_def arr_ref_count_def

lemma weak_lock_split:
  "weak_lock v w s = (case weak_lock_check w s of
      Inl e \<Rightarrow> Inl e | Inr c \<Rightarrow> weak_lock_return v w c s)"
  by (auto simp: weak_lock_def weak_lock_check_def weak_lock_return_def
           split: option.splits sum.splits)

lemma arr_weak_lock_split:
  "arr_weak_lock v w s = (case arr_weak_lock_check w s of
      Inl e \<Rightarrow> Inl e | Inr c \<Rightarrow> arr_weak_lock_return v w c s)"
  by (auto simp: arr_weak_lock_def arr_weak_lock_check_def arr_weak_lock_return_def
           split: option.splits sum.splits)

lemmas obs_defs = weak_lock_check_def weak_lock_return_def weak_expired_def weak_use_count_def
  arc_bool_def arc_use_count_def arc_get_def

lemmas arr_obs_defs = arr_weak_lock_check_def arr_weak_lock_return_def arr_weak_expired_def
  arr_weak_use_count_def arr_arc_bool_def arr_arc_use_count_def arr_arc_get_def


section \<open>What the destructors do to a live block\<close>

lemma arc_dtor_result:
  assumes "arcs s v = Some (Some p)" and "blocks s p = Some b"
  shows "\<exists>s'. arc_dtor v s = Inr s' \<and> arcs s' = (arcs s)(v := None)
           \<and> weak_arcs s' = weak_arcs s
           \<and> (if cb_ref_count b = 1 \<and> cb_weak_count b = 1
               then blocks s' = (blocks s)(p := None)
                  \<and> trace s' = trace s @ [ObjectDestroyed p, BlockFreed p]
               else blocks s' = (blocks s)(p \<mapsto> b\<lparr>cb_ref_count := cb_ref_count b - 1,
                        cb_weak_count := cb_weak_count b - (if cb_ref_count b = 1 then 1 else 0)\<rparr>)
                  \<and> trace s' = trace s)"
  using assms by (simp add: arc_dtor_def release_ref_eq [OF assms(2)])

lemma weak_dtor_result:
  assumes "weak_arcs s w = Some (Some p)" and "blocks s p = Some b"
  shows "\<exists>s'. weak_dtor w s = Inr s' \<and> weak_arcs s' = (weak_arcs s)(w := None)
           \<and> arcs s' = arcs s
           \<and> (if cb_weak_count b = 1
               then blocks s' = (blocks s)(p := None)
                  \<and> trace s' = trace s @ [ObjectDestroyed p, BlockFreed p]
               else blocks s' = (blocks s)(p \<mapsto> b\<lparr>cb_weak_count := cb_weak_count b - 1\<rparr>)
                  \<and> trace s' = trace s)"
  using assms by (simp add: weak_dtor_def release_weak_ref_eq [OF assms(2)])

lemma arr_arc_dtor_result:
  assumes "arr_state_inv s" and "arr_arcs s v = Some (Some p)" and "arr_blocks s p = Some b"
  shows "\<exists>s'. arr_arc_dtor v s = Inr s' \<and> arr_arcs s' = (arr_arcs s)(v := None)
           \<and> arr_weak_arcs s' = arr_weak_arcs s
           \<and> (if acb_ref_count b \<noteq> 1
               then arr_blocks s' = (arr_blocks s)(p \<mapsto> b\<lparr>acb_ref_count := acb_ref_count b - 1\<rparr>)
                  \<and> arr_buffers s' = arr_buffers s \<and> arr_trace s' = arr_trace s
               else arr_buffers s' = (arr_buffers s)(Suc p := None)
                  \<and> (if acb_weak_count b \<noteq> 1
                      then arr_blocks s' = (arr_blocks s)(p \<mapsto> b\<lparr>acb_ref_count := 0,
                               acb_data := None, acb_weak_count := acb_weak_count b - 1\<rparr>)
                         \<and> arr_trace s' = arr_trace s @ [BufferFreed (Suc p)]
                      else arr_blocks s' = (arr_blocks s)(p := None)
                         \<and> arr_trace s' = arr_trace s @ [BufferFreed (Suc p), BlockFreed p]))"
proof -
  have fin: "finite (dom (arr_arcs s))" using assms(1) by (simp add: arr_state_inv_def)
  have "0 < card {u. arr_arcs s u = Some (Some p)}"
    using card_owners_pos [OF fin assms(2)] by (simp add: owners_def)
  then have "0 < unat (acb_ref_count b)" using arr_inv_counts(1) [OF assms(1,3)] by simp
  then have nz: "acb_ref_count b \<noteq> 0" by (simp add: unat_gt_0)
  have d: "acb_data b = Some (Suc p)" using arr_inv_counts(7) [OF assms(1,3)] nz by simp
  have bf: "arr_buffers s (Suc p) \<noteq> None" using arr_inv_counts(8) [OF assms(1,3)] nz by simp
  have h: "acb_ref_count b = 1 \<longrightarrow> acb_data b = Some (Suc p) \<and> arr_buffers s (Suc p) \<noteq> None"
    using d bf by simp
  show ?thesis using assms(2)
    by (simp add: arr_arc_dtor_def arr_release_ref_eq [OF assms(3) h])
qed

lemma arr_weak_dtor_result:
  assumes "arr_state_inv s" and "arr_weak_arcs s w = Some (Some p)"
      and "arr_blocks s p = Some b"
  shows "\<exists>s'. arr_weak_dtor w s = Inr s' \<and> arr_weak_arcs s' = (arr_weak_arcs s)(w := None)
           \<and> arr_arcs s' = arr_arcs s \<and> arr_buffers s' = arr_buffers s
           \<and> (if acb_weak_count b = 1
               then arr_blocks s' = (arr_blocks s)(p := None)
                  \<and> arr_trace s' = arr_trace s @ [BlockFreed p]
               else arr_blocks s' =
                      (arr_blocks s)(p \<mapsto> b\<lparr>acb_weak_count := acb_weak_count b - 1\<rparr>)
                  \<and> arr_trace s' = arr_trace s)"
proof -
  have fin: "finite (dom (arr_weak_arcs s))" using assms(1) by (simp add: arr_state_inv_def)
  have pos: "0 < card {u. arr_weak_arcs s u = Some (Some p)}"
    using card_owners_pos [OF fin assms(2)] by (simp add: owners_def)
  have h: "acb_weak_count b = 1 \<longrightarrow> acb_data b = None"
  proof
    assume "acb_weak_count b = 1"
    then have "unat (acb_weak_count b) = 1" by simp
    then have "acb_ref_count b = 0"
      using arr_inv_counts(2) [OF assms(1,3)] pos by (auto split: if_splits)
    then show "acb_data b = None" using arr_inv_counts(7) [OF assms(1,3)] by simp
  qed
  show ?thesis using assms(2)
    by (simp add: arr_weak_dtor_def arr_release_weak_ref_eq [OF assms(3) h])
qed

section \<open>Properties\<close>

subsection \<open>Null handles\<close>

text \<open>
  Claim C10. \<^verbatim>\<open>get()\<close> on an empty strong handle returns the null pointer, in the
  single-object variant and in the array variant: the null test comes first, so no member
  of a control block is touched and the call cannot fault.
\<close>

theorem get_null_is_nullptr:
  "(arcs s v = Some None \<longrightarrow> arc_get v s = Inr nullptr) \<and>
   (arr_arcs t u = Some None \<longrightarrow> arr_arc_get u t = Inr None)"
  by (simp add: arc_get_def arr_arc_get_def)

theorem get_null_is_nullptr_witness:
  "arcs (init\<lparr>arcs := [0 \<mapsto> None]\<rparr> :: nat state) 0 = Some None \<and>
   arc_get 0 (init\<lparr>arcs := [0 \<mapsto> None]\<rparr> :: nat state) = Inr nullptr \<and>
   arr_arcs (arr_init\<lparr>arr_arcs := [0 \<mapsto> None]\<rparr> :: nat array_state) 0 = Some None \<and>
   arr_arc_get 0 (arr_init\<lparr>arr_arcs := [0 \<mapsto> None]\<rparr> :: nat array_state) = Inr None"
  using get_null_is_nullptr [of "init\<lparr>arcs := [0 \<mapsto> None]\<rparr> :: nat state" 0
      "arr_init\<lparr>arr_arcs := [0 \<mapsto> None]\<rparr> :: nat array_state" 0]
  by simp

subsection \<open>What \<^verbatim>\<open>lock()\<close> does\<close>

lemma lock_spec_single:
  "weak_lock v w s = (case weak_lock_check w s of
       Inl e \<Rightarrow> Inl e | Inr c \<Rightarrow> weak_lock_return v w c s)
 \<and> (weak_arcs s w = Some None \<longrightarrow> weak_lock_check w s = Inr False)
 \<and> (weak_arcs s w = Some (Some p) \<and> blocks s p = Some b \<longrightarrow>
       weak_lock_check w s = Inr (cb_ref_count b \<noteq> 0))
 \<and> (weak_arcs s w = Some (Some p) \<and> blocks s p = Some b \<and> arcs s v = None \<longrightarrow>
       weak_lock_return v w True s =
         Inr (s\<lparr>arcs := (arcs s)(v \<mapsto> Some p),
                blocks := (blocks s)(p \<mapsto> b\<lparr>cb_ref_count := cb_ref_count b + 1\<rparr>)\<rparr>))
 \<and> (weak_arcs s w = Some blk \<and> arcs s v = None \<longrightarrow>
       weak_lock_return v w False s = Inr (s\<lparr>arcs := (arcs s)(v \<mapsto> None)\<rparr>))
 \<and> (weak_arcs s w = Some (Some p) \<and> blocks s p = Some b \<and> cb_ref_count b \<noteq> 0
       \<and> arcs s v = None \<longrightarrow>
       weak_lock v w s =
         Inr (s\<lparr>arcs := (arcs s)(v \<mapsto> Some p),
                blocks := (blocks s)(p \<mapsto> b\<lparr>cb_ref_count := cb_ref_count b + 1\<rparr>)\<rparr>))
 \<and> ((weak_arcs s w = Some None
        \<or> (weak_arcs s w = Some (Some p) \<and> blocks s p = Some b \<and> cb_ref_count b = 0))
       \<and> arcs s v = None \<longrightarrow>
       weak_lock v w s = Inr (s\<lparr>arcs := (arcs s)(v \<mapsto> None)\<rparr>))"
proof (intro conjI impI)
  show "weak_lock v w s = (case weak_lock_check w s of
       Inl e \<Rightarrow> Inl e | Inr c \<Rightarrow> weak_lock_return v w c s)"
    by (rule weak_lock_split)
qed (auto simp: weak_lock_def weak_lock_check_def weak_lock_return_def ref_count_def
                arc_from_block_def arc_default_def add_ref_def word_greater_zero_iff)

lemma lock_spec_array:
  "arr_weak_lock v w t = (case arr_weak_lock_check w t of
       Inl e \<Rightarrow> Inl e | Inr c \<Rightarrow> arr_weak_lock_return v w c t)
 \<and> (arr_weak_arcs t w = Some None \<longrightarrow> arr_weak_lock_check w t = Inr False)
 \<and> (arr_weak_arcs t w = Some (Some p) \<and> arr_blocks t p = Some b \<longrightarrow>
       arr_weak_lock_check w t = Inr (acb_ref_count b \<noteq> 0))
 \<and> (arr_weak_arcs t w = Some (Some p) \<and> arr_blocks t p = Some b \<and> arr_arcs t v = None \<longrightarrow>
       arr_weak_lock_return v w True t =
         Inr (t\<lparr>arr_arcs := (arr_arcs t)(v \<mapsto> Some p),
                arr_blocks := (arr_blocks t)(p \<mapsto> b\<lparr>acb_ref_count := acb_ref_count b + 1\<rparr>)\<rparr>))
 \<and> (arr_weak_arcs t w = Some blk \<and> arr_arcs t v = None \<longrightarrow>
       arr_weak_lock_return v w False t = Inr (t\<lparr>arr_arcs := (arr_arcs t)(v \<mapsto> None)\<rparr>))
 \<and> (arr_weak_arcs t w = Some (Some p) \<and> arr_blocks t p = Some b \<and> acb_ref_count b \<noteq> 0
       \<and> arr_arcs t v = None \<longrightarrow>
       arr_weak_lock v w t =
         Inr (t\<lparr>arr_arcs := (arr_arcs t)(v \<mapsto> Some p),
                arr_blocks := (arr_blocks t)(p \<mapsto> b\<lparr>acb_ref_count := acb_ref_count b + 1\<rparr>)\<rparr>))
 \<and> ((arr_weak_arcs t w = Some None
        \<or> (arr_weak_arcs t w = Some (Some p) \<and> arr_blocks t p = Some b \<and> acb_ref_count b = 0))
       \<and> arr_arcs t v = None \<longrightarrow>
       arr_weak_lock v w t = Inr (t\<lparr>arr_arcs := (arr_arcs t)(v \<mapsto> None)\<rparr>))"
proof (intro conjI impI)
  show "arr_weak_lock v w t = (case arr_weak_lock_check w t of
       Inl e \<Rightarrow> Inl e | Inr c \<Rightarrow> arr_weak_lock_return v w c t)"
    by (rule arr_weak_lock_split)
qed (auto simp: arr_weak_lock_def arr_weak_lock_check_def arr_weak_lock_return_def
                arr_ref_count_def arr_arc_from_block_def arr_arc_default_def arr_add_ref_def
                word_greater_zero_iff)

text \<open>
  Claim C1. For a weak handle \<open>w\<close> of either variant, \<^verbatim>\<open>lock()\<close> is its condition
  (\<open>weak_lock_check\<close>, the read of the strong count) followed by the branch chosen by the
  value read (\<open>weak_lock_return\<close>). The condition is false for a null handle and is
  \<open>_ref_count \<noteq> 0\<close> for a handle of a live block. The branch for a true condition
  constructs a strong handle \<open>v\<close> holding the same block pointer and increments the strong
  count of that block by one, whatever the count is by then; nothing else in the state
  changes. The branch for a false condition constructs an empty strong handle and changes
  nothing else, so no count changes. The last two conjuncts of each half give the result
  of the whole call when nothing runs between the two statements.
\<close>

theorem lock_promotes_by_own_increment:
  "(weak_lock v w s = (case weak_lock_check w s of
       Inl e \<Rightarrow> Inl e | Inr c \<Rightarrow> weak_lock_return v w c s)
 \<and> (weak_arcs s w = Some None \<longrightarrow> weak_lock_check w s = Inr False)
 \<and> (weak_arcs s w = Some (Some p) \<and> blocks s p = Some b \<longrightarrow>
       weak_lock_check w s = Inr (cb_ref_count b \<noteq> 0))
 \<and> (weak_arcs s w = Some (Some p) \<and> blocks s p = Some b \<and> arcs s v = None \<longrightarrow>
       weak_lock_return v w True s =
         Inr (s\<lparr>arcs := (arcs s)(v \<mapsto> Some p),
                blocks := (blocks s)(p \<mapsto> b\<lparr>cb_ref_count := cb_ref_count b + 1\<rparr>)\<rparr>))
 \<and> (weak_arcs s w = Some blk \<and> arcs s v = None \<longrightarrow>
       weak_lock_return v w False s = Inr (s\<lparr>arcs := (arcs s)(v \<mapsto> None)\<rparr>))
 \<and> (weak_arcs s w = Some (Some p) \<and> blocks s p = Some b \<and> cb_ref_count b \<noteq> 0
       \<and> arcs s v = None \<longrightarrow>
       weak_lock v w s =
         Inr (s\<lparr>arcs := (arcs s)(v \<mapsto> Some p),
                blocks := (blocks s)(p \<mapsto> b\<lparr>cb_ref_count := cb_ref_count b + 1\<rparr>)\<rparr>))
 \<and> ((weak_arcs s w = Some None
        \<or> (weak_arcs s w = Some (Some p) \<and> blocks s p = Some b \<and> cb_ref_count b = 0))
       \<and> arcs s v = None \<longrightarrow>
       weak_lock v w s = Inr (s\<lparr>arcs := (arcs s)(v \<mapsto> None)\<rparr>)))
 \<and> (arr_weak_lock v' w' t = (case arr_weak_lock_check w' t of
       Inl e \<Rightarrow> Inl e | Inr c \<Rightarrow> arr_weak_lock_return v' w' c t)
 \<and> (arr_weak_arcs t w' = Some None \<longrightarrow> arr_weak_lock_check w' t = Inr False)
 \<and> (arr_weak_arcs t w' = Some (Some p') \<and> arr_blocks t p' = Some b' \<longrightarrow>
       arr_weak_lock_check w' t = Inr (acb_ref_count b' \<noteq> 0))
 \<and> (arr_weak_arcs t w' = Some (Some p') \<and> arr_blocks t p' = Some b' \<and> arr_arcs t v' = None \<longrightarrow>
       arr_weak_lock_return v' w' True t =
         Inr (t\<lparr>arr_arcs := (arr_arcs t)(v' \<mapsto> Some p'),
                arr_blocks := (arr_blocks t)(p' \<mapsto> b'\<lparr>acb_ref_count := acb_ref_count b' + 1\<rparr>)\<rparr>))
 \<and> (arr_weak_arcs t w' = Some blk' \<and> arr_arcs t v' = None \<longrightarrow>
       arr_weak_lock_return v' w' False t = Inr (t\<lparr>arr_arcs := (arr_arcs t)(v' \<mapsto> None)\<rparr>))
 \<and> (arr_weak_arcs t w' = Some (Some p') \<and> arr_blocks t p' = Some b' \<and> acb_ref_count b' \<noteq> 0
       \<and> arr_arcs t v' = None \<longrightarrow>
       arr_weak_lock v' w' t =
         Inr (t\<lparr>arr_arcs := (arr_arcs t)(v' \<mapsto> Some p'),
                arr_blocks := (arr_blocks t)(p' \<mapsto> b'\<lparr>acb_ref_count := acb_ref_count b' + 1\<rparr>)\<rparr>))
 \<and> ((arr_weak_arcs t w' = Some None
        \<or> (arr_weak_arcs t w' = Some (Some p') \<and> arr_blocks t p' = Some b' \<and> acb_ref_count b' = 0))
       \<and> arr_arcs t v' = None \<longrightarrow>
       arr_weak_lock v' w' t = Inr (t\<lparr>arr_arcs := (arr_arcs t)(v' \<mapsto> None)\<rparr>)))"
  by (rule conjI [OF lock_spec_single lock_spec_array])

theorem lock_promotes_by_own_increment_witness:
  "(\<exists>(s::unit state) b. run [ArcMake 0 (), WeakFromArc 1 0, WeakDefault 2] init = Inr s
      \<and> weak_arcs s 1 = Some (Some 0) \<and> weak_arcs s 2 = Some None \<and> arcs s 3 = None
      \<and> blocks s 0 = Some b \<and> cb_ref_count b = 1
      \<and> weak_lock_check 1 s = Inr True \<and> weak_lock_check 2 s = Inr False
      \<and> weak_lock_return 3 1 True s =
          Inr (s\<lparr>arcs := (arcs s)(3 \<mapsto> Some 0),
                 blocks := (blocks s)(0 \<mapsto> b\<lparr>cb_ref_count := 2\<rparr>)\<rparr>)
      \<and> weak_lock_return 3 1 False s = Inr (s\<lparr>arcs := (arcs s)(3 \<mapsto> None)\<rparr>)
      \<and> weak_lock 3 1 s =
          Inr (s\<lparr>arcs := (arcs s)(3 \<mapsto> Some 0),
                 blocks := (blocks s)(0 \<mapsto> b\<lparr>cb_ref_count := 2\<rparr>)\<rparr>)
      \<and> weak_lock 3 2 s = Inr (s\<lparr>arcs := (arcs s)(3 \<mapsto> None)\<rparr>))
 \<and> (\<exists>(t::unit array_state) b. arr_run [ArrArcMake 0 3 (), ArrWeakFromArc 1 0, ArrWeakDefault 2] arr_init = Inr t
      \<and> arr_weak_arcs t 1 = Some (Some 0) \<and> arr_weak_arcs t 2 = Some None \<and> arr_arcs t 3 = None
      \<and> arr_blocks t 0 = Some b \<and> acb_ref_count b = 1
      \<and> arr_weak_lock_check 1 t = Inr True \<and> arr_weak_lock_check 2 t = Inr False
      \<and> arr_weak_lock_return 3 1 True t =
          Inr (t\<lparr>arr_arcs := (arr_arcs t)(3 \<mapsto> Some 0),
                 arr_blocks := (arr_blocks t)(0 \<mapsto> b\<lparr>acb_ref_count := 2\<rparr>)\<rparr>)
      \<and> arr_weak_lock_return 3 1 False t = Inr (t\<lparr>arr_arcs := (arr_arcs t)(3 \<mapsto> None)\<rparr>)
      \<and> arr_weak_lock 3 1 t =
          Inr (t\<lparr>arr_arcs := (arr_arcs t)(3 \<mapsto> Some 0),
                 arr_blocks := (arr_blocks t)(0 \<mapsto> b\<lparr>acb_ref_count := 2\<rparr>)\<rparr>)
      \<and> arr_weak_lock 3 2 t = Inr (t\<lparr>arr_arcs := (arr_arcs t)(3 \<mapsto> None)\<rparr>))"
proof -
  obtain s :: "unit state"
    where s: "run [ArcMake 0 (), WeakFromArc 1 0, WeakDefault 2] init = Inr s"
    by (simp add: op_defs)
  obtain b where hs: "weak_arcs s 1 = Some (Some 0)" "weak_arcs s 2 = Some None"
      "arcs s 3 = None" "blocks s 0 = Some b" "cb_ref_count b = 1"
    using s by (auto simp: op_defs)
  obtain t :: "unit array_state"
    where t: "arr_run [ArrArcMake 0 3 (), ArrWeakFromArc 1 0, ArrWeakDefault 2] arr_init = Inr t"
    by (simp add: arr_op_defs)
  obtain ab where ht: "arr_weak_arcs t 1 = Some (Some 0)" "arr_weak_arcs t 2 = Some None"
      "arr_arcs t 3 = None" "arr_blocks t 0 = Some ab" "acb_ref_count ab = 1"
    using t by (auto simp: arr_op_defs)
  note live = lock_promotes_by_own_increment [of 3 1 s 0 b "Some 0" 3 1 t 0 ab "Some 0"]
  note null = lock_promotes_by_own_increment [of 3 2 s 0 b None 3 2 t 0 ab None]
  have a: "weak_lock_check 1 s = Inr True" "weak_lock_check 2 s = Inr False"
    "weak_lock_return 3 1 True s =
          Inr (s\<lparr>arcs := (arcs s)(3 \<mapsto> Some 0),
                 blocks := (blocks s)(0 \<mapsto> b\<lparr>cb_ref_count := 2\<rparr>)\<rparr>)"
    "weak_lock_return 3 1 False s = Inr (s\<lparr>arcs := (arcs s)(3 \<mapsto> None)\<rparr>)"
    "weak_lock 3 1 s =
          Inr (s\<lparr>arcs := (arcs s)(3 \<mapsto> Some 0),
                 blocks := (blocks s)(0 \<mapsto> b\<lparr>cb_ref_count := 2\<rparr>)\<rparr>)"
    "weak_lock 3 2 s = Inr (s\<lparr>arcs := (arcs s)(3 \<mapsto> None)\<rparr>)"
    using live null hs by simp_all
  have c: "arr_weak_lock_check 1 t = Inr True" "arr_weak_lock_check 2 t = Inr False"
    "arr_weak_lock_return 3 1 True t =
          Inr (t\<lparr>arr_arcs := (arr_arcs t)(3 \<mapsto> Some 0),
                 arr_blocks := (arr_blocks t)(0 \<mapsto> ab\<lparr>acb_ref_count := 2\<rparr>)\<rparr>)"
    "arr_weak_lock_return 3 1 False t = Inr (t\<lparr>arr_arcs := (arr_arcs t)(3 \<mapsto> None)\<rparr>)"
    "arr_weak_lock 3 1 t =
          Inr (t\<lparr>arr_arcs := (arr_arcs t)(3 \<mapsto> Some 0),
                 arr_blocks := (arr_blocks t)(0 \<mapsto> ab\<lparr>acb_ref_count := 2\<rparr>)\<rparr>)"
    "arr_weak_lock 3 2 t = Inr (t\<lparr>arr_arcs := (arr_arcs t)(3 \<mapsto> None)\<rparr>)"
    using live null ht by simp_all
  show ?thesis using s hs a t ht c by blast
qed

subsection \<open>When the inline payload is destroyed\<close>

text \<open>
  Claim C2 (single-object variant). In every state reached from the empty state by fewer
  than \<open>2 ^ 64\<close> operations, and for every address \<open>p\<close>:
  the payload destructor of \<open>p\<close> has run exactly as often as the block of \<open>p\<close> has been
  deallocated; it has run once if \<open>p\<close> was allocated and no strong and no weak handle
  refers to it any more, and not at all otherwise. In particular, destroying the last
  strong handle while a weak handle is outstanding produces no destruction event (the
  strong count becomes 0 and the payload stays in the block), and destroying the last weak
  handle of a block whose strong count is 0 runs the payload destructor and deallocates
  the block in that very operation.
\<close>

theorem payload_destroyed_with_block:
  assumes "run cs init = Inr s" and "length cs < 2 ^ 64"
  shows "count_list (trace s) (ObjectDestroyed p) = count_list (trace s) (BlockFreed p)
       \<and> count_list (trace s) (ObjectDestroyed p) =
           (if p < fresh s \<and> (\<forall>v. arcs s v \<noteq> Some (Some p))
                 \<and> (\<forall>w. weak_arcs s w \<noteq> Some (Some p)) then 1 else 0)
       \<and> (\<forall>v w b. arcs s v = Some (Some p) \<and> blocks s p = Some b \<and> cb_ref_count b = 1
              \<and> weak_arcs s w = Some (Some p) \<longrightarrow>
            (\<exists>s' b'. arc_dtor v s = Inr s' \<and> trace s' = trace s \<and> blocks s' p = Some b'
               \<and> cb_ref_count b' = 0 \<and> cb_object b' = cb_object b))
       \<and> (\<forall>w b. weak_arcs s w = Some (Some p) \<and> blocks s p = Some b \<and> cb_ref_count b = 0
              \<and> (\<forall>w'. weak_arcs s w' = Some (Some p) \<longrightarrow> w' = w) \<longrightarrow>
            (\<exists>s'. weak_dtor w s = Inr s' \<and> blocks s' p = None
               \<and> trace s' = trace s @ [ObjectDestroyed p, BlockFreed p]))"
proof -
  have i: "state_inv s" by (rule reachable_inv(1) [OF assms])
  have fin: "finite (dom (arcs s))" "finite (dom (weak_arcs s))"
    using i by (simp_all add: state_inv_def)
  have c1: "count_list (trace s) (ObjectDestroyed p) = count_list (trace s) (BlockFreed p)"
    by (simp add: inv_freed_count [OF i])
  have c2: "count_list (trace s) (ObjectDestroyed p) =
           (if p < fresh s \<and> (\<forall>v. arcs s v \<noteq> Some (Some p))
                 \<and> (\<forall>w. weak_arcs s w \<noteq> Some (Some p)) then 1 else 0)"
  proof (cases "p < fresh s")
    case True
    then show ?thesis using inv_live_iff [OF i True] by (simp add: inv_freed_count [OF i])
  next
    case False
    then show ?thesis by (simp add: inv_freed_count [OF i])
  qed
  have c3: "\<exists>s' b'. arc_dtor v s = Inr s' \<and> trace s' = trace s \<and> blocks s' p = Some b'
               \<and> cb_ref_count b' = 0 \<and> cb_object b' = cb_object b"
    if h: "arcs s v = Some (Some p)" "blocks s p = Some b" "cb_ref_count b = 1"
          "weak_arcs s w = Some (Some p)" for v w b
  proof -
    have "0 < card {w. weak_arcs s w = Some (Some p)}"
      using card_owners_pos [OF fin(2) h(4)] by (simp add: owners_def)
    then have "1 < unat (cb_weak_count b)"
      using inv_counts(2) [OF i h(2)] h(3) by simp
    then have "unat (cb_weak_count b) \<noteq> unat (1 :: size_t)" by simp
    then have "cb_weak_count b \<noteq> 1" by (simp only: word_unat_eq_iff not_False_eq_True)
    then show ?thesis using h(1,2,3)
      by (simp add: arc_dtor_def release_ref_eq [OF h(2)])
  qed
  have c4: "\<exists>s'. weak_dtor w s = Inr s' \<and> blocks s' p = None
               \<and> trace s' = trace s @ [ObjectDestroyed p, BlockFreed p]"
    if h: "weak_arcs s w = Some (Some p)" "blocks s p = Some b" "cb_ref_count b = 0"
          "\<forall>w'. weak_arcs s w' = Some (Some p) \<longrightarrow> w' = w" for w b
  proof -
    have "{w'. weak_arcs s w' = Some (Some p)} = {w}" using h(1,4) by blast
    then have "unat (cb_weak_count b) = 1"
      using inv_counts(2) [OF i h(2)] h(3) by simp
    then have "cb_weak_count b = 1" by (simp add: word_unat_eq_iff)
    then show ?thesis using h(1,2)
      by (simp add: weak_dtor_def release_weak_ref_eq [OF h(2)])
  qed
  have c3': "\<forall>v w b. arcs s v = Some (Some p) \<and> blocks s p = Some b \<and> cb_ref_count b = 1
              \<and> weak_arcs s w = Some (Some p) \<longrightarrow>
            (\<exists>s' b'. arc_dtor v s = Inr s' \<and> trace s' = trace s \<and> blocks s' p = Some b'
               \<and> cb_ref_count b' = 0 \<and> cb_object b' = cb_object b)"
    using c3 by blast
  have c4': "\<forall>w b. weak_arcs s w = Some (Some p) \<and> blocks s p = Some b \<and> cb_ref_count b = 0
              \<and> (\<forall>w'. weak_arcs s w' = Some (Some p) \<longrightarrow> w' = w) \<longrightarrow>
            (\<exists>s'. weak_dtor w s = Inr s' \<and> blocks s' p = None
               \<and> trace s' = trace s @ [ObjectDestroyed p, BlockFreed p])"
    using c4 by blast
  show ?thesis by (rule conjI [OF c1 conjI [OF c2 conjI [OF c3' c4']]])
qed

theorem payload_destroyed_with_block_witness:
  "\<exists>s s' s''. run [ArcMake 0 (), WeakFromArc 1 0] init = Inr s
       \<and> arc_dtor 0 s = Inr s' \<and> trace s' = trace s
       \<and> (\<exists>b'. blocks s' 0 = Some b' \<and> cb_ref_count b' = 0)
       \<and> run [ArcMake 0 (), WeakFromArc 1 0, ArcDtor 0] init = Inr s'
       \<and> weak_dtor 1 s' = Inr s'' \<and> blocks s'' 0 = None
       \<and> trace s'' = trace s' @ [ObjectDestroyed 0, BlockFreed 0]
       \<and> count_list (trace s'') (ObjectDestroyed 0) = 1"
proof -
  obtain s :: "unit state" where s: "run [ArcMake 0 (), WeakFromArc 1 0] init = Inr s"
    by (simp add: op_defs)
  have len: "length [ArcMake 0 (), WeakFromArc 1 (0::nat) :: unit op] < (2::nat) ^ 64" by simp
  have hs: "arcs s 0 = Some (Some 0)" "weak_arcs s 1 = Some (Some 0)"
    "\<exists>b. blocks s 0 = Some b \<and> cb_ref_count b = 1"
    using s by (auto simp: op_defs)
  obtain s' b' where s': "arc_dtor 0 s = Inr s'" "trace s' = trace s"
      "blocks s' 0 = Some b'" "cb_ref_count b' = 0"
    using payload_destroyed_with_block [OF s len, of 0] hs by blast
  have r': "run [ArcMake 0 (), WeakFromArc 1 0, ArcDtor 0] init = Inr s'"
    using run_append [of "[ArcMake 0 (), WeakFromArc 1 0]" "[ArcDtor 0]" init] s s'(1) by simp
  have len': "length [ArcMake 0 (), WeakFromArc 1 (0::nat), ArcDtor 0 :: unit op] < (2::nat) ^ 64"
    by simp
  have hs': "weak_arcs s' 1 = Some (Some 0)" "\<forall>w'. weak_arcs s' w' = Some (Some 0) \<longrightarrow> w' = 1"
    using r' by (auto simp: op_defs split: if_splits)
  obtain s'' where s'': "weak_dtor 1 s' = Inr s''" "blocks s'' 0 = None"
      "trace s'' = trace s' @ [ObjectDestroyed 0, BlockFreed 0]"
    using payload_destroyed_with_block [OF r' len', of 0] hs' s'(3,4) by blast
  have "trace s = []" using s by (auto simp: op_defs)
  then have "count_list (trace s'') (ObjectDestroyed 0) = 1" using s''(3) s'(2) by simp
  then show ?thesis using s s' r' s'' by blast
qed

subsection \<open>When the array buffer is deallocated\<close>

text \<open>
  Claim C3 (array variant). The buffer of the block at \<open>p\<close> is the allocation
  \<open>Suc p\<close> made by the block's constructor. In every state \<open>s\<close> reached from the empty
  state by fewer than \<open>2 ^ 64\<close> operations: \<^verbatim>\<open>delete[]\<close> has run on that buffer exactly
  once if the block was allocated and no strong handle refers to it any more, and not at
  all otherwise, whatever weak handles exist; the buffer is allocated exactly as long as a
  strong handle exists; a live block has \<^verbatim>\<open>_data\<close> pointing to the buffer while the
  strong count is not 0 and \<^verbatim>\<open>nullptr\<close> afterwards. The destructor of a strong handle
  deletes the buffer in that very operation exactly if the strong count was 1, with or
  without weak handles outstanding. The destructor of a weak handle never deletes a
  buffer, also when it deallocates the control block. And in every continuation of the
  program from a state with a strong handle of \<open>p\<close>, the number of deletions of the buffer
  is 0 while a strong handle of \<open>p\<close> exists and 1 from then on.
\<close>

theorem buffer_freed_when_strong_count_leaves_one:
  assumes "arr_run cs arr_init = Inr s" and "length cs < 2 ^ 64"
  shows "count_list (arr_trace s) (BufferFreed (Suc p)) =
           (if even p \<and> p < arr_fresh s \<and> (\<forall>v. arr_arcs s v \<noteq> Some (Some p))
            then 1 else 0)
       \<and> (arr_buffers s (Suc p) \<noteq> None) = (\<exists>v. arr_arcs s v = Some (Some p))
       \<and> (\<forall>b. arr_blocks s p = Some b \<longrightarrow>
             unat (acb_ref_count b) = card {v. arr_arcs s v = Some (Some p)}
           \<and> acb_data b = (if acb_ref_count b = 0 then None else Some (Suc p))
           \<and> count_list (arr_trace s) (BufferFreed (Suc p))
               = (if acb_ref_count b = 0 then 1 else 0))
       \<and> (\<forall>v b. arr_arcs s v = Some (Some p) \<and> arr_blocks s p = Some b \<longrightarrow>
            (\<exists>s'. arr_arc_dtor v s = Inr s'
               \<and> (if acb_ref_count b = 1
                   then arr_buffers s' (Suc p) = None
                      \<and> arr_trace s' = arr_trace s @ BufferFreed (Suc p)
                           # (if acb_weak_count b = 1 then [BlockFreed p] else [])
                      \<and> (acb_weak_count b \<noteq> 1 \<longrightarrow>
                           (\<exists>b'. arr_blocks s' p = Some b' \<and> acb_ref_count b' = 0
                                \<and> acb_data b' = None))
                   else arr_buffers s' = arr_buffers s \<and> arr_trace s' = arr_trace s)))
       \<and> (\<forall>w b. arr_weak_arcs s w = Some (Some p) \<and> arr_blocks s p = Some b \<longrightarrow>
            (\<exists>s'. arr_weak_dtor w s = Inr s' \<and> arr_buffers s' = arr_buffers s
               \<and> arr_trace s' = arr_trace s
                    @ (if acb_weak_count b = 1 then [BlockFreed p] else [])))
       \<and> (\<forall>cs' s' v. arr_run cs' s = Inr s' \<and> length cs + length cs' < 2 ^ 64
               \<and> arr_arcs s v = Some (Some p) \<longrightarrow>
             count_list (arr_trace s) (BufferFreed (Suc p)) = 0
           \<and> count_list (arr_trace s') (BufferFreed (Suc p))
               = (if \<forall>u. arr_arcs s' u \<noteq> Some (Some p) then 1 else 0))"
proof -
  have i: "arr_state_inv s" by (rule arr_reachable_inv(1) [OF assms])
  have fin: "finite (dom (arr_arcs s))" using i by (simp add: arr_state_inv_def)
  have strong: "unat (acb_ref_count b) = card {v. arr_arcs s v = Some (Some p)}
           \<and> acb_data b = (if acb_ref_count b = 0 then None else Some (Suc p))
           \<and> count_list (arr_trace s) (BufferFreed (Suc p))
               = (if acb_ref_count b = 0 then 1 else 0)
           \<and> (acb_ref_count b = 0) = (\<forall>v. arr_arcs s v \<noteq> Some (Some p))
           \<and> even p \<and> p < arr_fresh s
           \<and> (arr_buffers s (Suc p) = None) = (acb_ref_count b = 0)"
    if b: "arr_blocks s p = Some b" for b
  proof -
    have r: "unat (acb_ref_count b) = card (owners (arr_arcs s) p)"
      using arr_inv_counts(1) [OF i b] by (simp add: owners_def)
    have "(acb_ref_count b = 0) = (card (owners (arr_arcs s) p) = 0)"
      using r by (metis unat_eq_zero)
    then have z: "(acb_ref_count b = 0) = (\<forall>v. arr_arcs s v \<noteq> Some (Some p))"
      by (simp add: card_owners_zero_iff [OF fin])
    show ?thesis
      using arr_inv_counts(1,4,5,7,8,9) [OF i b] z by simp
  qed
  have dead: "(\<forall>v. arr_arcs s v \<noteq> Some (Some p)) \<and> arr_buffers s (Suc p) = None
           \<and> count_list (arr_trace s) (BufferFreed (Suc p))
               = (if even p \<and> p < arr_fresh s then 1 else 0)"
    if n: "arr_blocks s p = None"
  proof -
    have "\<forall>v. arr_arcs s v \<noteq> Some (Some p)"
      using arr_inv_owner_live [OF i] n by fastforce
    then show ?thesis
      using arr_inv_freed_count(2,3) [OF i n] by simp
  qed
  have c1: "count_list (arr_trace s) (BufferFreed (Suc p)) =
           (if even p \<and> p < arr_fresh s \<and> (\<forall>v. arr_arcs s v \<noteq> Some (Some p))
            then 1 else 0)"
  proof (cases "arr_blocks s p")
    case None
    then show ?thesis using dead by simp
  next
    case (Some b)
    then show ?thesis using strong [OF Some] by simp
  qed
  have c2: "(arr_buffers s (Suc p) \<noteq> None) = (\<exists>v. arr_arcs s v = Some (Some p))"
  proof (cases "arr_blocks s p")
    case None
    then show ?thesis using dead by simp
  next
    case (Some b)
    then show ?thesis using strong [OF Some] by simp
  qed
  have c3: "\<forall>b. arr_blocks s p = Some b \<longrightarrow>
             unat (acb_ref_count b) = card {v. arr_arcs s v = Some (Some p)}
           \<and> acb_data b = (if acb_ref_count b = 0 then None else Some (Suc p))
           \<and> count_list (arr_trace s) (BufferFreed (Suc p))
               = (if acb_ref_count b = 0 then 1 else 0)"
    using strong by blast
  have c4: "\<forall>v b. arr_arcs s v = Some (Some p) \<and> arr_blocks s p = Some b \<longrightarrow>
            (\<exists>s'. arr_arc_dtor v s = Inr s'
               \<and> (if acb_ref_count b = 1
                   then arr_buffers s' (Suc p) = None
                      \<and> arr_trace s' = arr_trace s @ BufferFreed (Suc p)
                           # (if acb_weak_count b = 1 then [BlockFreed p] else [])
                      \<and> (acb_weak_count b \<noteq> 1 \<longrightarrow>
                           (\<exists>b'. arr_blocks s' p = Some b' \<and> acb_ref_count b' = 0
                                \<and> acb_data b' = None))
                   else arr_buffers s' = arr_buffers s \<and> arr_trace s' = arr_trace s))"
  proof (intro allI impI, elim conjE)
    fix v b assume h: "arr_arcs s v = Some (Some p)" "arr_blocks s p = Some b"
    obtain s' where s': "arr_arc_dtor v s = Inr s'"
      and e: "if acb_ref_count b \<noteq> 1
               then arr_blocks s' = (arr_blocks s)(p \<mapsto> b\<lparr>acb_ref_count := acb_ref_count b - 1\<rparr>)
                  \<and> arr_buffers s' = arr_buffers s \<and> arr_trace s' = arr_trace s
               else arr_buffers s' = (arr_buffers s)(Suc p := None)
                  \<and> (if acb_weak_count b \<noteq> 1
                      then arr_blocks s' = (arr_blocks s)(p \<mapsto> b\<lparr>acb_ref_count := 0,
                               acb_data := None, acb_weak_count := acb_weak_count b - 1\<rparr>)
                         \<and> arr_trace s' = arr_trace s @ [BufferFreed (Suc p)]
                      else arr_blocks s' = (arr_blocks s)(p := None)
                         \<and> arr_trace s' = arr_trace s @ [BufferFreed (Suc p), BlockFreed p])"
      using arr_arc_dtor_result [OF i h] by blast
    have "if acb_ref_count b = 1
                   then arr_buffers s' (Suc p) = None
                      \<and> arr_trace s' = arr_trace s @ BufferFreed (Suc p)
                           # (if acb_weak_count b = 1 then [BlockFreed p] else [])
                      \<and> (acb_weak_count b \<noteq> 1 \<longrightarrow>
                           (\<exists>b'. arr_blocks s' p = Some b' \<and> acb_ref_count b' = 0
                                \<and> acb_data b' = None))
                   else arr_buffers s' = arr_buffers s \<and> arr_trace s' = arr_trace s"
      using e by (simp split: if_splits)
    then show "\<exists>s'. arr_arc_dtor v s = Inr s'
               \<and> (if acb_ref_count b = 1
                   then arr_buffers s' (Suc p) = None
                      \<and> arr_trace s' = arr_trace s @ BufferFreed (Suc p)
                           # (if acb_weak_count b = 1 then [BlockFreed p] else [])
                      \<and> (acb_weak_count b \<noteq> 1 \<longrightarrow>
                           (\<exists>b'. arr_blocks s' p = Some b' \<and> acb_ref_count b' = 0
                                \<and> acb_data b' = None))
                   else arr_buffers s' = arr_buffers s \<and> arr_trace s' = arr_trace s)"
      using s' by blast
  qed
  have c5: "\<forall>w b. arr_weak_arcs s w = Some (Some p) \<and> arr_blocks s p = Some b \<longrightarrow>
            (\<exists>s'. arr_weak_dtor w s = Inr s' \<and> arr_buffers s' = arr_buffers s
               \<and> arr_trace s' = arr_trace s
                    @ (if acb_weak_count b = 1 then [BlockFreed p] else []))"
  proof (intro allI impI, elim conjE)
    fix w b assume h: "arr_weak_arcs s w = Some (Some p)" "arr_blocks s p = Some b"
    obtain s' where s': "arr_weak_dtor w s = Inr s'" "arr_buffers s' = arr_buffers s"
      and e: "if acb_weak_count b = 1
               then arr_blocks s' = (arr_blocks s)(p := None)
                  \<and> arr_trace s' = arr_trace s @ [BlockFreed p]
               else arr_blocks s' =
                      (arr_blocks s)(p \<mapsto> b\<lparr>acb_weak_count := acb_weak_count b - 1\<rparr>)
                  \<and> arr_trace s' = arr_trace s"
      using arr_weak_dtor_result [OF i h] by blast
    have "arr_trace s' = arr_trace s @ (if acb_weak_count b = 1 then [BlockFreed p] else [])"
      using e by (simp split: if_splits)
    then show "\<exists>s'. arr_weak_dtor w s = Inr s' \<and> arr_buffers s' = arr_buffers s
               \<and> arr_trace s' = arr_trace s
                    @ (if acb_weak_count b = 1 then [BlockFreed p] else [])"
      using s' by blast
  qed
  have c6: "\<forall>cs' s' v. arr_run cs' s = Inr s' \<and> length cs + length cs' < 2 ^ 64
               \<and> arr_arcs s v = Some (Some p) \<longrightarrow>
             count_list (arr_trace s) (BufferFreed (Suc p)) = 0
           \<and> count_list (arr_trace s') (BufferFreed (Suc p))
               = (if \<forall>u. arr_arcs s' u \<noteq> Some (Some p) then 1 else 0)"
  proof (intro allI impI, elim conjE)
    fix cs' s' v
    assume r: "arr_run cs' s = Inr s'" and len: "length cs + length cs' < 2 ^ 64"
       and v: "arr_arcs s v = Some (Some p)"
    obtain b where b: "arr_blocks s p = Some b" using arr_inv_owner_live [OF i v] by blast
    have ep: "even p" "p < arr_fresh s" using strong [OF b] by simp_all
    have before: "count_list (arr_trace s) (BufferFreed (Suc p)) = 0"
      using c1 v by auto
    have hb: "arr_handles s + length cs' < 2 ^ 64"
      using arr_reachable_inv(2) [OF assms] len by simp
    have i': "arr_state_inv s'" and fr: "arr_fresh s \<le> arr_fresh s'"
      using arr_run_inv [OF i hb r] by simp_all
    have fin': "finite (dom (arr_arcs s'))" using i' by (simp add: arr_state_inv_def)
    have after: "count_list (arr_trace s') (BufferFreed (Suc p))
               = (if \<forall>u. arr_arcs s' u \<noteq> Some (Some p) then 1 else 0)"
    proof (cases "arr_blocks s' p")
      case None
      have "\<forall>u. arr_arcs s' u \<noteq> Some (Some p)"
        using arr_inv_owner_live [OF i'] None by fastforce
      moreover have "count_list (arr_trace s') (BufferFreed (Suc p)) = 1"
        using arr_inv_freed_count(3) [OF i' None] ep fr by simp
      ultimately show ?thesis by simp
    next
      case (Some b')
      have r': "unat (acb_ref_count b') = card (owners (arr_arcs s') p)"
        using arr_inv_counts(1) [OF i' Some] by (simp add: owners_def)
      have "(acb_ref_count b' = 0) = (card (owners (arr_arcs s') p) = 0)"
        using r' by (metis unat_eq_zero)
      then have z: "(acb_ref_count b' = 0) = (\<forall>u. arr_arcs s' u \<noteq> Some (Some p))"
        by (simp add: card_owners_zero_iff [OF fin'])
      show ?thesis using arr_inv_counts(9) [OF i' Some] z by simp
    qed
    show "count_list (arr_trace s) (BufferFreed (Suc p)) = 0
           \<and> count_list (arr_trace s') (BufferFreed (Suc p))
               = (if \<forall>u. arr_arcs s' u \<noteq> Some (Some p) then 1 else 0)"
      using before after by simp
  qed
  show ?thesis
    by (rule conjI [OF c1 conjI [OF c2 conjI [OF c3 conjI [OF c4 conjI [OF c5 c6]]]]])
qed

theorem buffer_freed_when_strong_count_leaves_one_witness:
  "\<exists>(t::unit array_state) t2 t3 b.
       arr_run [ArrArcMake 0 3 (), ArrWeakFromArc 2 0] arr_init = Inr t
     \<and> arr_blocks t 0 = Some b \<and> acb_ref_count b = 1 \<and> acb_weak_count b = 2
     \<and> acb_data b = Some (Suc 0)
     \<and> arr_buffers t (Suc 0) \<noteq> None
     \<and> count_list (arr_trace t) (BufferFreed (Suc 0)) = 0
     \<and> arr_arc_dtor 0 t = Inr t2 \<and> arr_buffers t2 (Suc 0) = None
     \<and> arr_trace t2 = arr_trace t @ [BufferFreed (Suc 0)]
     \<and> arr_weak_dtor 2 t2 = Inr t3 \<and> arr_buffers t3 = arr_buffers t2
     \<and> arr_trace t3 = arr_trace t2 @ [BlockFreed 0]
     \<and> arr_run [ArrArcDtor 0, ArrWeakDtor 2] t = Inr t3
     \<and> count_list (arr_trace t3) (BufferFreed (Suc 0)) = 1"
proof -
  obtain t :: "unit array_state"
    where t: "arr_run [ArrArcMake 0 3 (), ArrWeakFromArc 2 0] arr_init = Inr t"
    by (simp add: arr_op_defs)
  define b :: array_control_block
    where "b = \<lparr>acb_ref_count = 1, acb_weak_count = 2, acb_data = Some (Suc 0),
                 acb_size = 3\<rparr>"
  have ht: "arr_arcs t 0 = Some (Some 0)" "arr_blocks t 0 = Some b" "acb_ref_count b = 1"
      "acb_weak_count b = 2" "acb_data b = Some (Suc 0)"
    using t by (auto simp: arr_op_defs b_def)
  have len: "length [ArrArcMake 0 3 (), ArrWeakFromArc 2 0 :: unit arr_op] < 2 ^ 64"
    by simp
  note at_t = buffer_freed_when_strong_count_leaves_one [OF t len, where p = 0]
  note count_t = conjunct1 [OF at_t]
  note live_t = conjunct1 [OF conjunct2 [OF at_t]]
  note dtor_t = conjunct1 [OF conjunct2 [OF conjunct2 [OF conjunct2 [OF at_t]]]]
  note later_t = conjunct2 [OF conjunct2 [OF conjunct2 [OF conjunct2 [OF conjunct2 [OF at_t]]]]]
  have buf: "arr_buffers t (Suc 0) \<noteq> None" using live_t ht(1) by blast
  have cnt: "count_list (arr_trace t) (BufferFreed (Suc 0)) = 0"
    using count_t ht(1) by auto
  obtain t2 where t2: "arr_arc_dtor 0 t = Inr t2" "arr_buffers t2 (Suc 0) = None"
      "arr_trace t2 = arr_trace t @ [BufferFreed (Suc 0)]"
    using dtor_t [rule_format, of 0 b] ht by auto
  have r2: "arr_run [ArrArcMake 0 3 (), ArrWeakFromArc 2 0, ArrArcDtor 0] arr_init = Inr t2"
    using arr_run_append [of "[ArrArcMake 0 3 (), ArrWeakFromArc 2 0]" "[ArrArcDtor 0]"
                             arr_init] t t2(1)
    by simp
  have len2: "length [ArrArcMake 0 3 (), ArrWeakFromArc 2 0, ArrArcDtor 0 :: unit arr_op]
      < 2 ^ 64" by simp
  define b2 :: array_control_block
    where "b2 = \<lparr>acb_ref_count = 0, acb_weak_count = 1, acb_data = None, acb_size = 3\<rparr>"
  have ht2: "arr_weak_arcs t2 2 = Some (Some 0)" "arr_blocks t2 0 = Some b2"
      "acb_weak_count b2 = 1"
    using r2 by (auto simp: arr_op_defs b2_def)
  note at_t2 = buffer_freed_when_strong_count_leaves_one [OF r2 len2, where p = 0]
  note wdtor_t2 = conjunct1 [OF conjunct2 [OF conjunct2 [OF conjunct2 [OF conjunct2 [OF at_t2]]]]]
  obtain t3 where t3: "arr_weak_dtor 2 t2 = Inr t3" "arr_buffers t3 = arr_buffers t2"
      "arr_trace t3 = arr_trace t2 @ [BlockFreed 0]"
    using wdtor_t2 [rule_format, of 2 b2] ht2 by auto
  have r3: "arr_run [ArrArcDtor 0, ArrWeakDtor 2] t = Inr t3"
    using t2(1) t3(1) by simp
  have r4: "arr_run [ArrArcMake 0 3 (), ArrWeakFromArc 2 0, ArrArcDtor 0, ArrWeakDtor 2]
              arr_init = Inr t3"
    using arr_run_append [of "[ArrArcMake 0 3 (), ArrWeakFromArc 2 0]"
                             "[ArrArcDtor 0, ArrWeakDtor 2]" arr_init] t r3
    by simp
  have none: "\<forall>u. arr_arcs t3 u \<noteq> Some (Some 0)"
    using r4 by (auto simp: arr_op_defs split: if_splits)
  have len3: "length [ArrArcMake 0 3 (), ArrWeakFromArc 2 0 :: unit arr_op]
      + length [ArrArcDtor 0, ArrWeakDtor 2 :: unit arr_op] < 2 ^ 64" by simp
  have cnt3: "count_list (arr_trace t3) (BufferFreed (Suc 0)) = 1"
    using later_t [rule_format, of "[ArrArcDtor 0, ArrWeakDtor 2]" t3 0] r3 len3 ht(1) none
    by simp
  show ?thesis using t ht(2-5) buf cnt t2 t3 r3 cnt3 by blast
qed

subsection \<open>When the control block is deallocated\<close>

lemma block_freed_once_single:
  assumes "run cs init = Inr s" and "length cs < 2 ^ 64"
  shows "count_list (trace s) (BlockFreed p) =
           (if p < fresh s \<and> (\<forall>v. arcs s v \<noteq> Some (Some p))
                 \<and> (\<forall>w. weak_arcs s w \<noteq> Some (Some p)) then 1 else 0)
       \<and> (\<forall>b. blocks s p = Some b \<longrightarrow>
             cb_weak_count b \<noteq> 0
           \<and> unat (cb_weak_count b) = card {w. weak_arcs s w = Some (Some p)}
                                        + (if cb_ref_count b = 0 then 0 else 1)
           \<and> unat (cb_ref_count b) = card {v. arcs s v = Some (Some p)})
       \<and> (\<forall>c s' b. step c s = Inr s' \<and> blocks s p = Some b \<and> blocks s' p = None \<longrightarrow>
             cb_weak_count b = 1 \<and> trace s' = trace s @ [ObjectDestroyed p, BlockFreed p])
       \<and> (\<forall>v b. arcs s v = Some (Some p) \<and> blocks s p = Some b \<longrightarrow>
            (\<exists>s'. arc_dtor v s = Inr s'
               \<and> (if cb_ref_count b = 1 \<and> cb_weak_count b = 1
                   then blocks s' p = None
                      \<and> trace s' = trace s @ [ObjectDestroyed p, BlockFreed p]
                   else blocks s' p = Some (b\<lparr>cb_ref_count := cb_ref_count b - 1,
                            cb_weak_count :=
                              cb_weak_count b - (if cb_ref_count b = 1 then 1 else 0)\<rparr>)
                      \<and> trace s' = trace s)))
       \<and> (\<forall>w b. weak_arcs s w = Some (Some p) \<and> blocks s p = Some b \<longrightarrow>
            (\<exists>s'. weak_dtor w s = Inr s'
               \<and> (if cb_weak_count b = 1
                   then blocks s' p = None
                      \<and> trace s' = trace s @ [ObjectDestroyed p, BlockFreed p]
                   else blocks s' p = Some (b\<lparr>cb_weak_count := cb_weak_count b - 1\<rparr>)
                      \<and> trace s' = trace s)))"
proof -
  have i: "state_inv s" by (rule reachable_inv(1) [OF assms])
  have c1: "count_list (trace s) (BlockFreed p) =
           (if p < fresh s \<and> (\<forall>v. arcs s v \<noteq> Some (Some p))
                 \<and> (\<forall>w. weak_arcs s w \<noteq> Some (Some p)) then 1 else 0)"
  proof (cases "p < fresh s")
    case True
    then show ?thesis using inv_live_iff [OF i True] by (simp add: inv_freed_count [OF i])
  next
    case False
    then show ?thesis by (simp add: inv_freed_count [OF i])
  qed
  have c2: "\<forall>b. blocks s p = Some b \<longrightarrow>
             cb_weak_count b \<noteq> 0
           \<and> unat (cb_weak_count b) = card {w. weak_arcs s w = Some (Some p)}
                                        + (if cb_ref_count b = 0 then 0 else 1)
           \<and> unat (cb_ref_count b) = card {v. arcs s v = Some (Some p)}"
    using inv_counts(1,2,3) [OF i] by blast
  have c3: "\<forall>c s' b. step c s = Inr s' \<and> blocks s p = Some b \<and> blocks s' p = None \<longrightarrow>
             cb_weak_count b = 1 \<and> trace s' = trace s @ [ObjectDestroyed p, BlockFreed p]"
    using step_frees by blast
  have c4: "\<forall>v b. arcs s v = Some (Some p) \<and> blocks s p = Some b \<longrightarrow>
            (\<exists>s'. arc_dtor v s = Inr s'
               \<and> (if cb_ref_count b = 1 \<and> cb_weak_count b = 1
                   then blocks s' p = None
                      \<and> trace s' = trace s @ [ObjectDestroyed p, BlockFreed p]
                   else blocks s' p = Some (b\<lparr>cb_ref_count := cb_ref_count b - 1,
                            cb_weak_count :=
                              cb_weak_count b - (if cb_ref_count b = 1 then 1 else 0)\<rparr>)
                      \<and> trace s' = trace s))"
  proof (intro allI impI, elim conjE)
    fix v b assume h: "arcs s v = Some (Some p)" "blocks s p = Some b"
    obtain s' where s': "arc_dtor v s = Inr s'"
      and e: "if cb_ref_count b = 1 \<and> cb_weak_count b = 1
               then blocks s' = (blocks s)(p := None)
                  \<and> trace s' = trace s @ [ObjectDestroyed p, BlockFreed p]
               else blocks s' = (blocks s)(p \<mapsto> b\<lparr>cb_ref_count := cb_ref_count b - 1,
                        cb_weak_count := cb_weak_count b - (if cb_ref_count b = 1 then 1 else 0)\<rparr>)
                  \<and> trace s' = trace s"
      using arc_dtor_result [OF h] by blast
    have "if cb_ref_count b = 1 \<and> cb_weak_count b = 1
                   then blocks s' p = None
                      \<and> trace s' = trace s @ [ObjectDestroyed p, BlockFreed p]
                   else blocks s' p = Some (b\<lparr>cb_ref_count := cb_ref_count b - 1,
                            cb_weak_count :=
                              cb_weak_count b - (if cb_ref_count b = 1 then 1 else 0)\<rparr>)
                      \<and> trace s' = trace s"
      using e by (simp split: if_splits)
    then show "\<exists>s'. arc_dtor v s = Inr s'
               \<and> (if cb_ref_count b = 1 \<and> cb_weak_count b = 1
                   then blocks s' p = None
                      \<and> trace s' = trace s @ [ObjectDestroyed p, BlockFreed p]
                   else blocks s' p = Some (b\<lparr>cb_ref_count := cb_ref_count b - 1,
                            cb_weak_count :=
                              cb_weak_count b - (if cb_ref_count b = 1 then 1 else 0)\<rparr>)
                      \<and> trace s' = trace s)"
      using s' by blast
  qed
  have c5: "\<forall>w b. weak_arcs s w = Some (Some p) \<and> blocks s p = Some b \<longrightarrow>
            (\<exists>s'. weak_dtor w s = Inr s'
               \<and> (if cb_weak_count b = 1
                   then blocks s' p = None
                      \<and> trace s' = trace s @ [ObjectDestroyed p, BlockFreed p]
                   else blocks s' p = Some (b\<lparr>cb_weak_count := cb_weak_count b - 1\<rparr>)
                      \<and> trace s' = trace s))"
  proof (intro allI impI, elim conjE)
    fix w b assume h: "weak_arcs s w = Some (Some p)" "blocks s p = Some b"
    obtain s' where s': "weak_dtor w s = Inr s'"
      and e: "if cb_weak_count b = 1
               then blocks s' = (blocks s)(p := None)
                  \<and> trace s' = trace s @ [ObjectDestroyed p, BlockFreed p]
               else blocks s' = (blocks s)(p \<mapsto> b\<lparr>cb_weak_count := cb_weak_count b - 1\<rparr>)
                  \<and> trace s' = trace s"
      using weak_dtor_result [OF h] by blast
    have "if cb_weak_count b = 1
                   then blocks s' p = None
                      \<and> trace s' = trace s @ [ObjectDestroyed p, BlockFreed p]
                   else blocks s' p = Some (b\<lparr>cb_weak_count := cb_weak_count b - 1\<rparr>)
                      \<and> trace s' = trace s"
      using e by (simp split: if_splits)
    then show "\<exists>s'. weak_dtor w s = Inr s'
               \<and> (if cb_weak_count b = 1
                   then blocks s' p = None
                      \<and> trace s' = trace s @ [ObjectDestroyed p, BlockFreed p]
                   else blocks s' p = Some (b\<lparr>cb_weak_count := cb_weak_count b - 1\<rparr>)
                      \<and> trace s' = trace s)"
      using s' by blast
  qed
  show ?thesis by (rule conjI [OF c1 conjI [OF c2 conjI [OF c3 conjI [OF c4 c5]]]])
qed

lemma block_freed_once_array:
  assumes "arr_run cs arr_init = Inr s" and "length cs < 2 ^ 64"
  shows "count_list (arr_trace s) (BlockFreed p) =
           (if even p \<and> p < arr_fresh s \<and> (\<forall>v. arr_arcs s v \<noteq> Some (Some p))
                 \<and> (\<forall>w. arr_weak_arcs s w \<noteq> Some (Some p)) then 1 else 0)
       \<and> (\<forall>b. arr_blocks s p = Some b \<longrightarrow>
             acb_weak_count b \<noteq> 0
           \<and> unat (acb_weak_count b) = card {w. arr_weak_arcs s w = Some (Some p)}
                                        + (if acb_ref_count b = 0 then 0 else 1)
           \<and> unat (acb_ref_count b) = card {v. arr_arcs s v = Some (Some p)})
       \<and> (\<forall>c s' b. arr_step c s = Inr s' \<and> arr_blocks s p = Some b
                 \<and> arr_blocks s' p = None \<longrightarrow>
             acb_weak_count b = 1
           \<and> (\<exists>es. arr_trace s' = arr_trace s @ es @ [BlockFreed p]))
       \<and> (\<forall>v b. arr_arcs s v = Some (Some p) \<and> arr_blocks s p = Some b \<longrightarrow>
            (\<exists>s'. arr_arc_dtor v s = Inr s'
               \<and> (if acb_ref_count b = 1 \<and> acb_weak_count b = 1
                   then arr_blocks s' p = None
                      \<and> arr_trace s' = arr_trace s @ [BufferFreed (Suc p), BlockFreed p]
                   else (\<exists>b'. arr_blocks s' p = Some b'
                          \<and> acb_ref_count b' = acb_ref_count b - 1
                          \<and> acb_weak_count b' =
                              acb_weak_count b - (if acb_ref_count b = 1 then 1 else 0))
                      \<and> arr_trace s' = arr_trace s
                           @ (if acb_ref_count b = 1 then [BufferFreed (Suc p)] else []))))
       \<and> (\<forall>w b. arr_weak_arcs s w = Some (Some p) \<and> arr_blocks s p = Some b \<longrightarrow>
            (\<exists>s'. arr_weak_dtor w s = Inr s'
               \<and> (if acb_weak_count b = 1
                   then arr_blocks s' p = None
                      \<and> arr_trace s' = arr_trace s @ [BlockFreed p]
                   else arr_blocks s' p = Some (b\<lparr>acb_weak_count := acb_weak_count b - 1\<rparr>)
                      \<and> arr_trace s' = arr_trace s)))"
proof -
  have i: "arr_state_inv s" by (rule arr_reachable_inv(1) [OF assms])
  have c1: "count_list (arr_trace s) (BlockFreed p) =
           (if even p \<and> p < arr_fresh s \<and> (\<forall>v. arr_arcs s v \<noteq> Some (Some p))
                 \<and> (\<forall>w. arr_weak_arcs s w \<noteq> Some (Some p)) then 1 else 0)"
  proof (cases "p < arr_fresh s")
    case True
    then show ?thesis using arr_inv_live_iff [OF i True]
      by (simp add: arr_inv_freed_count(1) [OF i])
  next
    case False
    then show ?thesis by (simp add: arr_inv_freed_count(1) [OF i])
  qed
  have c2: "\<forall>b. arr_blocks s p = Some b \<longrightarrow>
             acb_weak_count b \<noteq> 0
           \<and> unat (acb_weak_count b) = card {w. arr_weak_arcs s w = Some (Some p)}
                                        + (if acb_ref_count b = 0 then 0 else 1)
           \<and> unat (acb_ref_count b) = card {v. arr_arcs s v = Some (Some p)}"
    using arr_inv_counts(1,2,3) [OF i] by blast
  have c3: "\<forall>c s' b. arr_step c s = Inr s' \<and> arr_blocks s p = Some b
                 \<and> arr_blocks s' p = None \<longrightarrow>
             acb_weak_count b = 1
           \<and> (\<exists>es. arr_trace s' = arr_trace s @ es @ [BlockFreed p])"
    using arr_step_frees by blast
  have c4: "\<forall>v b. arr_arcs s v = Some (Some p) \<and> arr_blocks s p = Some b \<longrightarrow>
            (\<exists>s'. arr_arc_dtor v s = Inr s'
               \<and> (if acb_ref_count b = 1 \<and> acb_weak_count b = 1
                   then arr_blocks s' p = None
                      \<and> arr_trace s' = arr_trace s @ [BufferFreed (Suc p), BlockFreed p]
                   else (\<exists>b'. arr_blocks s' p = Some b'
                          \<and> acb_ref_count b' = acb_ref_count b - 1
                          \<and> acb_weak_count b' =
                              acb_weak_count b - (if acb_ref_count b = 1 then 1 else 0))
                      \<and> arr_trace s' = arr_trace s
                           @ (if acb_ref_count b = 1 then [BufferFreed (Suc p)] else [])))"
  proof (intro allI impI, elim conjE)
    fix v b assume h: "arr_arcs s v = Some (Some p)" "arr_blocks s p = Some b"
    obtain s' where s': "arr_arc_dtor v s = Inr s'"
      and e: "if acb_ref_count b \<noteq> 1
               then arr_blocks s' = (arr_blocks s)(p \<mapsto> b\<lparr>acb_ref_count := acb_ref_count b - 1\<rparr>)
                  \<and> arr_buffers s' = arr_buffers s \<and> arr_trace s' = arr_trace s
               else arr_buffers s' = (arr_buffers s)(Suc p := None)
                  \<and> (if acb_weak_count b \<noteq> 1
                      then arr_blocks s' = (arr_blocks s)(p \<mapsto> b\<lparr>acb_ref_count := 0,
                               acb_data := None, acb_weak_count := acb_weak_count b - 1\<rparr>)
                         \<and> arr_trace s' = arr_trace s @ [BufferFreed (Suc p)]
                      else arr_blocks s' = (arr_blocks s)(p := None)
                         \<and> arr_trace s' = arr_trace s @ [BufferFreed (Suc p), BlockFreed p])"
      using arr_arc_dtor_result [OF i h] by blast
    have "if acb_ref_count b = 1 \<and> acb_weak_count b = 1
                   then arr_blocks s' p = None
                      \<and> arr_trace s' = arr_trace s @ [BufferFreed (Suc p), BlockFreed p]
                   else (\<exists>b'. arr_blocks s' p = Some b'
                          \<and> acb_ref_count b' = acb_ref_count b - 1
                          \<and> acb_weak_count b' =
                              acb_weak_count b - (if acb_ref_count b = 1 then 1 else 0))
                      \<and> arr_trace s' = arr_trace s
                           @ (if acb_ref_count b = 1 then [BufferFreed (Suc p)] else [])"
      using e by (simp split: if_splits)
    then show "\<exists>s'. arr_arc_dtor v s = Inr s'
               \<and> (if acb_ref_count b = 1 \<and> acb_weak_count b = 1
                   then arr_blocks s' p = None
                      \<and> arr_trace s' = arr_trace s @ [BufferFreed (Suc p), BlockFreed p]
                   else (\<exists>b'. arr_blocks s' p = Some b'
                          \<and> acb_ref_count b' = acb_ref_count b - 1
                          \<and> acb_weak_count b' =
                              acb_weak_count b - (if acb_ref_count b = 1 then 1 else 0))
                      \<and> arr_trace s' = arr_trace s
                           @ (if acb_ref_count b = 1 then [BufferFreed (Suc p)] else []))"
      using s' by blast
  qed
  have c5: "\<forall>w b. arr_weak_arcs s w = Some (Some p) \<and> arr_blocks s p = Some b \<longrightarrow>
            (\<exists>s'. arr_weak_dtor w s = Inr s'
               \<and> (if acb_weak_count b = 1
                   then arr_blocks s' p = None
                      \<and> arr_trace s' = arr_trace s @ [BlockFreed p]
                   else arr_blocks s' p = Some (b\<lparr>acb_weak_count := acb_weak_count b - 1\<rparr>)
                      \<and> arr_trace s' = arr_trace s))"
  proof (intro allI impI, elim conjE)
    fix w b assume h: "arr_weak_arcs s w = Some (Some p)" "arr_blocks s p = Some b"
    obtain s' where s': "arr_weak_dtor w s = Inr s'"
      and e: "if acb_weak_count b = 1
               then arr_blocks s' = (arr_blocks s)(p := None)
                  \<and> arr_trace s' = arr_trace s @ [BlockFreed p]
               else arr_blocks s' =
                      (arr_blocks s)(p \<mapsto> b\<lparr>acb_weak_count := acb_weak_count b - 1\<rparr>)
                  \<and> arr_trace s' = arr_trace s"
      using arr_weak_dtor_result [OF i h] by blast
    have "if acb_weak_count b = 1
                   then arr_blocks s' p = None
                      \<and> arr_trace s' = arr_trace s @ [BlockFreed p]
                   else arr_blocks s' p = Some (b\<lparr>acb_weak_count := acb_weak_count b - 1\<rparr>)
                      \<and> arr_trace s' = arr_trace s"
      using e by (simp split: if_splits)
    then show "\<exists>s'. arr_weak_dtor w s = Inr s'
               \<and> (if acb_weak_count b = 1
                   then arr_blocks s' p = None
                      \<and> arr_trace s' = arr_trace s @ [BlockFreed p]
                   else arr_blocks s' p = Some (b\<lparr>acb_weak_count := acb_weak_count b - 1\<rparr>)
                      \<and> arr_trace s' = arr_trace s)"
      using s' by blast
  qed
  show ?thesis by (rule conjI [OF c1 conjI [OF c2 conjI [OF c3 conjI [OF c4 c5]]]])
qed

text \<open>
  Claim C4. In every state reached from the empty state by fewer than \<open>2 ^ 64\<close>
  operations of either variant (constructions, copies, moves, assignments, locks and
  destructions, over any number of allocations) and for every block address \<open>p\<close>:
  the block of \<open>p\<close> has been deallocated exactly once if it was allocated and no strong
  and no weak handle refers to it any more, and not at all otherwise. While the block is
  live its weak count is not 0 and equals the number of weak handles plus one unit held
  by the strong side as long as the strong count is not 0. An operation that deallocates
  the block found its weak count at 1, and the deallocation is the last event of that
  operation. The destructor of a strong handle of \<open>p\<close> decrements the strong count and,
  when it was 1, the weak count: the block is deallocated in that operation exactly if
  both counts were 1. The destructor of a weak handle of \<open>p\<close> decrements the weak count
  and deallocates the block in that operation exactly if the count was 1.
\<close>

theorem control_block_freed_exactly_once:
  "(run cs init = Inr s \<and> length cs < 2 ^ 64 \<longrightarrow>
      count_list (trace s) (BlockFreed p) =
             (if p < fresh s \<and> (\<forall>v. arcs s v \<noteq> Some (Some p))
                   \<and> (\<forall>w. weak_arcs s w \<noteq> Some (Some p)) then 1 else 0)
         \<and> (\<forall>b. blocks s p = Some b \<longrightarrow>
               cb_weak_count b \<noteq> 0
             \<and> unat (cb_weak_count b) = card {w. weak_arcs s w = Some (Some p)}
                                          + (if cb_ref_count b = 0 then 0 else 1)
             \<and> unat (cb_ref_count b) = card {v. arcs s v = Some (Some p)})
         \<and> (\<forall>c s' b. step c s = Inr s' \<and> blocks s p = Some b \<and> blocks s' p = None \<longrightarrow>
               cb_weak_count b = 1 \<and> trace s' = trace s @ [ObjectDestroyed p, BlockFreed p])
         \<and> (\<forall>v b. arcs s v = Some (Some p) \<and> blocks s p = Some b \<longrightarrow>
              (\<exists>s'. arc_dtor v s = Inr s'
                 \<and> (if cb_ref_count b = 1 \<and> cb_weak_count b = 1
                     then blocks s' p = None
                        \<and> trace s' = trace s @ [ObjectDestroyed p, BlockFreed p]
                     else blocks s' p = Some (b\<lparr>cb_ref_count := cb_ref_count b - 1,
                              cb_weak_count :=
                                cb_weak_count b - (if cb_ref_count b = 1 then 1 else 0)\<rparr>)
                        \<and> trace s' = trace s)))
         \<and> (\<forall>w b. weak_arcs s w = Some (Some p) \<and> blocks s p = Some b \<longrightarrow>
              (\<exists>s'. weak_dtor w s = Inr s'
                 \<and> (if cb_weak_count b = 1
                     then blocks s' p = None
                        \<and> trace s' = trace s @ [ObjectDestroyed p, BlockFreed p]
                     else blocks s' p = Some (b\<lparr>cb_weak_count := cb_weak_count b - 1\<rparr>)
                        \<and> trace s' = trace s))))
 \<and> (arr_run acs arr_init = Inr t \<and> length acs < 2 ^ 64 \<longrightarrow>
      count_list (arr_trace t) (BlockFreed p) =
             (if even p \<and> p < arr_fresh t \<and> (\<forall>v. arr_arcs t v \<noteq> Some (Some p))
                   \<and> (\<forall>w. arr_weak_arcs t w \<noteq> Some (Some p)) then 1 else 0)
         \<and> (\<forall>b. arr_blocks t p = Some b \<longrightarrow>
               acb_weak_count b \<noteq> 0
             \<and> unat (acb_weak_count b) = card {w. arr_weak_arcs t w = Some (Some p)}
                                          + (if acb_ref_count b = 0 then 0 else 1)
             \<and> unat (acb_ref_count b) = card {v. arr_arcs t v = Some (Some p)})
         \<and> (\<forall>c t' b. arr_step c t = Inr t' \<and> arr_blocks t p = Some b
                   \<and> arr_blocks t' p = None \<longrightarrow>
               acb_weak_count b = 1
             \<and> (\<exists>es. arr_trace t' = arr_trace t @ es @ [BlockFreed p]))
         \<and> (\<forall>v b. arr_arcs t v = Some (Some p) \<and> arr_blocks t p = Some b \<longrightarrow>
              (\<exists>t'. arr_arc_dtor v t = Inr t'
                 \<and> (if acb_ref_count b = 1 \<and> acb_weak_count b = 1
                     then arr_blocks t' p = None
                        \<and> arr_trace t' = arr_trace t @ [BufferFreed (Suc p), BlockFreed p]
                     else (\<exists>b'. arr_blocks t' p = Some b'
                            \<and> acb_ref_count b' = acb_ref_count b - 1
                            \<and> acb_weak_count b' =
                                acb_weak_count b - (if acb_ref_count b = 1 then 1 else 0))
                        \<and> arr_trace t' = arr_trace t
                             @ (if acb_ref_count b = 1 then [BufferFreed (Suc p)] else []))))
         \<and> (\<forall>w b. arr_weak_arcs t w = Some (Some p) \<and> arr_blocks t p = Some b \<longrightarrow>
              (\<exists>t'. arr_weak_dtor w t = Inr t'
                 \<and> (if acb_weak_count b = 1
                     then arr_blocks t' p = None
                        \<and> arr_trace t' = arr_trace t @ [BlockFreed p]
                     else arr_blocks t' p = Some (b\<lparr>acb_weak_count := acb_weak_count b - 1\<rparr>)
                        \<and> arr_trace t' = arr_trace t))))"
  apply (rule conjI)
   apply (rule impI, erule conjE, rule block_freed_once_single, assumption, assumption)
  apply (rule impI, erule conjE, rule block_freed_once_array, assumption, assumption)
  done

theorem control_block_freed_exactly_once_witness:
  "(\<exists>(s::unit state) s2 s3 b b2.
       run [ArcMake 0 (), WeakFromArc 2 0] init = Inr s
     \<and> blocks s 0 = Some b \<and> cb_ref_count b = 1 \<and> cb_weak_count b = 2
     \<and> arc_dtor 0 s = Inr s2 \<and> trace s2 = trace s
     \<and> blocks s2 0 = Some b2 \<and> cb_ref_count b2 = 0 \<and> cb_weak_count b2 = 1
     \<and> count_list (trace s2) (BlockFreed 0) = 0
     \<and> weak_dtor 2 s2 = Inr s3 \<and> blocks s3 0 = None
     \<and> trace s3 = trace s2 @ [ObjectDestroyed 0, BlockFreed 0]
     \<and> count_list (trace s3) (BlockFreed 0) = 1)
 \<and> (\<exists>(t::unit array_state) t2 t3 b b2.
       arr_run [ArrArcMake 0 3 (), ArrWeakFromArc 2 0] arr_init = Inr t
     \<and> arr_blocks t 0 = Some b \<and> acb_ref_count b = 1 \<and> acb_weak_count b = 2
     \<and> arr_arc_dtor 0 t = Inr t2 \<and> arr_trace t2 = arr_trace t @ [BufferFreed (Suc 0)]
     \<and> arr_blocks t2 0 = Some b2 \<and> acb_ref_count b2 = 0 \<and> acb_weak_count b2 = 1
     \<and> count_list (arr_trace t2) (BlockFreed 0) = 0
     \<and> arr_weak_dtor 2 t2 = Inr t3 \<and> arr_blocks t3 0 = None
     \<and> arr_trace t3 = arr_trace t2 @ [BlockFreed 0]
     \<and> count_list (arr_trace t3) (BlockFreed 0) = 1)"
proof -
  obtain t0 :: "unit array_state" where t0: "arr_run [] arr_init = Inr t0" by simp
  have len0: "length ([] :: unit arr_op list) < 2 ^ 64" by simp
  obtain s0 :: "unit state" where s0: "run [] init = Inr s0" by simp
  have slen0: "length ([] :: unit op list) < 2 ^ 64" by simp
  have single: "\<exists>(s::unit state) s2 s3 b b2.
       run [ArcMake 0 (), WeakFromArc 2 0] init = Inr s
     \<and> blocks s 0 = Some b \<and> cb_ref_count b = 1 \<and> cb_weak_count b = 2
     \<and> arc_dtor 0 s = Inr s2 \<and> trace s2 = trace s
     \<and> blocks s2 0 = Some b2 \<and> cb_ref_count b2 = 0 \<and> cb_weak_count b2 = 1
     \<and> count_list (trace s2) (BlockFreed 0) = 0
     \<and> weak_dtor 2 s2 = Inr s3 \<and> blocks s3 0 = None
     \<and> trace s3 = trace s2 @ [ObjectDestroyed 0, BlockFreed 0]
     \<and> count_list (trace s3) (BlockFreed 0) = 1"
  proof -
    obtain s :: "unit state" where s: "run [ArcMake 0 (), WeakFromArc 2 0] init = Inr s"
      by (simp add: op_defs)
    define b :: "unit control_block"
      where "b = \<lparr>cb_ref_count = 1, cb_weak_count = 2, cb_object = ()\<rparr>"
    have hs: "arcs s 0 = Some (Some 0)" "blocks s 0 = Some b" "cb_ref_count b = 1"
        "cb_weak_count b = 2"
      using s by (auto simp: op_defs b_def)
    have len: "length [ArcMake 0 (), WeakFromArc 2 0 :: unit op] < 2 ^ 64" by simp
    note at_s = mp [OF conjunct1 [OF control_block_freed_exactly_once
        [where cs = "[ArcMake 0 (), WeakFromArc 2 0]" and s = s and p = 0
           and acs = "[]" and t = t0]] conjI [OF s len]]
    note dtor_s = conjunct1 [OF conjunct2 [OF conjunct2 [OF conjunct2 [OF at_s]]]]
    obtain s2 where s2: "arc_dtor 0 s = Inr s2" "trace s2 = trace s"
        "blocks s2 0 = Some (b\<lparr>cb_ref_count := cb_ref_count b - 1,
            cb_weak_count := cb_weak_count b - (if cb_ref_count b = 1 then 1 else 0)\<rparr>)"
      using dtor_s [rule_format, of 0 b] hs by auto
    define b2 where "b2 = b\<lparr>cb_ref_count := cb_ref_count b - 1,
            cb_weak_count := cb_weak_count b - (if cb_ref_count b = 1 then 1 else 0)\<rparr>"
    have hb2: "blocks s2 0 = Some b2" "cb_ref_count b2 = 0" "cb_weak_count b2 = 1"
      using s2(3) hs by (simp_all add: b2_def)
    have r2: "run [ArcMake 0 (), WeakFromArc 2 0, ArcDtor 0] init = Inr s2"
      using run_append [of "[ArcMake 0 (), WeakFromArc 2 0]" "[ArcDtor 0]" init] s s2(1)
      by simp
    have len2: "length [ArcMake 0 (), WeakFromArc 2 0, ArcDtor 0 :: unit op] < 2 ^ 64"
      by simp
    have hs2: "weak_arcs s2 2 = Some (Some 0)" using r2 by (auto simp: op_defs)
    note at_s2 = mp [OF conjunct1 [OF control_block_freed_exactly_once
        [where cs = "[ArcMake 0 (), WeakFromArc 2 0, ArcDtor 0]" and s = s2 and p = 0
           and acs = "[]" and t = t0]] conjI [OF r2 len2]]
    note step_s2 = conjunct1 [OF conjunct2 [OF conjunct2 [OF at_s2]]]
    note wdtor_s2 = conjunct2 [OF conjunct2 [OF conjunct2 [OF conjunct2 [OF at_s2]]]]
    have cnt2: "count_list (trace s2) (BlockFreed 0) = 0"
      using conjunct1 [OF at_s2] hs2 by auto
    obtain s3 where s3: "weak_dtor 2 s2 = Inr s3" "blocks s3 0 = None"
      using wdtor_s2 [rule_format, of 2 b2] hs2 hb2 by auto
    have st: "step (WeakDtor 2) s2 = Inr s3" using s3(1) by simp
    have tr3: "trace s3 = trace s2 @ [ObjectDestroyed 0, BlockFreed 0]"
      using step_s2 [rule_format, of "WeakDtor 2" s3 b2] st hb2(1) s3(2) by simp
    have r3: "run [ArcMake 0 (), WeakFromArc 2 0, ArcDtor 0, WeakDtor 2] init = Inr s3"
      using run_append [of "[ArcMake 0 (), WeakFromArc 2 0, ArcDtor 0]" "[WeakDtor 2]" init]
        r2 s3(1) by simp
    have len3: "length [ArcMake 0 (), WeakFromArc 2 0, ArcDtor 0, WeakDtor 2 :: unit op]
        < 2 ^ 64" by simp
    have hs3: "0 < fresh s3" "\<forall>v. arcs s3 v \<noteq> Some (Some 0)"
        "\<forall>w. weak_arcs s3 w \<noteq> Some (Some 0)"
      using r3 by (auto simp: op_defs split: if_splits)
    note at_s3 = mp [OF conjunct1 [OF control_block_freed_exactly_once
        [where cs = "[ArcMake 0 (), WeakFromArc 2 0, ArcDtor 0, WeakDtor 2]" and s = s3
           and p = 0 and acs = "[]" and t = t0]] conjI [OF r3 len3]]
    have cnt3: "count_list (trace s3) (BlockFreed 0) = 1"
      using conjunct1 [OF at_s3] hs3 by simp
    show ?thesis using s hs(2,3,4) s2(1,2) hb2 cnt2 s3 tr3 cnt3 by blast
  qed
  have array: "\<exists>(t::unit array_state) t2 t3 b b2.
       arr_run [ArrArcMake 0 3 (), ArrWeakFromArc 2 0] arr_init = Inr t
     \<and> arr_blocks t 0 = Some b \<and> acb_ref_count b = 1 \<and> acb_weak_count b = 2
     \<and> arr_arc_dtor 0 t = Inr t2 \<and> arr_trace t2 = arr_trace t @ [BufferFreed (Suc 0)]
     \<and> arr_blocks t2 0 = Some b2 \<and> acb_ref_count b2 = 0 \<and> acb_weak_count b2 = 1
     \<and> count_list (arr_trace t2) (BlockFreed 0) = 0
     \<and> arr_weak_dtor 2 t2 = Inr t3 \<and> arr_blocks t3 0 = None
     \<and> arr_trace t3 = arr_trace t2 @ [BlockFreed 0]
     \<and> count_list (arr_trace t3) (BlockFreed 0) = 1"
  proof -
    obtain t :: "unit array_state"
      where t: "arr_run [ArrArcMake 0 3 (), ArrWeakFromArc 2 0] arr_init = Inr t"
      by (simp add: arr_op_defs)
    define b :: array_control_block
      where "b = \<lparr>acb_ref_count = 1, acb_weak_count = 2, acb_data = Some (Suc 0),
                   acb_size = 3\<rparr>"
    have ht: "arr_arcs t 0 = Some (Some 0)" "arr_blocks t 0 = Some b" "acb_ref_count b = 1"
        "acb_weak_count b = 2"
      using t by (auto simp: arr_op_defs b_def)
    have len: "length [ArrArcMake 0 3 (), ArrWeakFromArc 2 0 :: unit arr_op] < 2 ^ 64"
      by simp
    note at_t = mp [OF conjunct2 [OF control_block_freed_exactly_once
        [where acs = "[ArrArcMake 0 3 (), ArrWeakFromArc 2 0]" and t = t and p = 0
           and cs = "[]" and s = s0]] conjI [OF t len]]
    note dtor_t = conjunct1 [OF conjunct2 [OF conjunct2 [OF conjunct2 [OF at_t]]]]
    obtain t2 b2 where t2: "arr_arc_dtor 0 t = Inr t2"
        "arr_trace t2 = arr_trace t @ [BufferFreed (Suc 0)]"
        "arr_blocks t2 0 = Some b2" "acb_ref_count b2 = 0" "acb_weak_count b2 = 1"
      using dtor_t [rule_format, of 0 b] ht by auto
    have r2: "arr_run [ArrArcMake 0 3 (), ArrWeakFromArc 2 0, ArrArcDtor 0] arr_init = Inr t2"
      using arr_run_append [of "[ArrArcMake 0 3 (), ArrWeakFromArc 2 0]" "[ArrArcDtor 0]"
                               arr_init] t t2(1)
      by simp
    have len2: "length [ArrArcMake 0 3 (), ArrWeakFromArc 2 0, ArrArcDtor 0 :: unit arr_op]
        < 2 ^ 64" by simp
    have ht2: "arr_weak_arcs t2 2 = Some (Some 0)" using r2 by (auto simp: arr_op_defs)
    note at_t2 = mp [OF conjunct2 [OF control_block_freed_exactly_once
        [where acs = "[ArrArcMake 0 3 (), ArrWeakFromArc 2 0, ArrArcDtor 0]" and t = t2
           and p = 0 and cs = "[]" and s = s0]] conjI [OF r2 len2]]
    note step_t2 = conjunct1 [OF conjunct2 [OF conjunct2 [OF at_t2]]]
    note wdtor_t2 = conjunct2 [OF conjunct2 [OF conjunct2 [OF conjunct2 [OF at_t2]]]]
    have cnt2: "count_list (arr_trace t2) (BlockFreed 0) = 0"
      using conjunct1 [OF at_t2] ht2 by auto
    obtain t3 where t3: "arr_weak_dtor 2 t2 = Inr t3" "arr_blocks t3 0 = None"
        "arr_trace t3 = arr_trace t2 @ [BlockFreed 0]"
      using wdtor_t2 [rule_format, of 2 b2] ht2 t2(3,5) by auto
    have st: "arr_step (ArrWeakDtor 2) t2 = Inr t3" using t3(1) by simp
    have "acb_weak_count b2 = 1"
      using step_t2 [rule_format, of "ArrWeakDtor 2" t3 b2] st t2(3) t3(2) by simp
    have r3: "arr_run [ArrArcMake 0 3 (), ArrWeakFromArc 2 0, ArrArcDtor 0, ArrWeakDtor 2]
                arr_init = Inr t3"
      using arr_run_append [of "[ArrArcMake 0 3 (), ArrWeakFromArc 2 0, ArrArcDtor 0]"
                               "[ArrWeakDtor 2]" arr_init]
        r2 t3(1) by simp
    have len3: "length [ArrArcMake 0 3 (), ArrWeakFromArc 2 0, ArrArcDtor 0,
                        ArrWeakDtor 2 :: unit arr_op] < 2 ^ 64" by simp
    have ht3: "0 < arr_fresh t3" "\<forall>v. arr_arcs t3 v \<noteq> Some (Some 0)"
        "\<forall>w. arr_weak_arcs t3 w \<noteq> Some (Some 0)"
      using r3 by (auto simp: arr_op_defs split: if_splits)
    note at_t3 = mp [OF conjunct2 [OF control_block_freed_exactly_once
        [where acs = "[ArrArcMake 0 3 (), ArrWeakFromArc 2 0, ArrArcDtor 0, ArrWeakDtor 2]"
           and t = t3 and p = 0 and cs = "[]" and s = s0]] conjI [OF r3 len3]]
    have cnt3: "count_list (arr_trace t3) (BlockFreed 0) = 1"
      using conjunct1 [OF at_t3] ht3 by simp
    show ?thesis using t ht(2,3,4) t2 cnt2 t3 cnt3 by blast
  qed
  show ?thesis by (rule conjI [OF single array])
qed

subsection \<open>Expiry after the last strong handle is gone\<close>

text \<open>
  When every call runs to completion before the next one starts, expiry is permanent: from
  a state \<open>s1\<close> in which no strong handle refers to \<open>p\<close> while a weak handle still does,
  whatever operations follow, every weak handle of \<open>p\<close> reports \<^verbatim>\<open>expired()\<close> and
  locks to an empty handle, and the strong count stays 0. This holds in both variants.
\<close>

lemma expiry_when_lock_is_indivisible:
  assumes "run cs1 init = Inr s1" and "run cs2 s1 = Inr s2"
      and "length cs1 + length cs2 < 2 ^ 64"
      and "\<forall>u. arcs s1 u \<noteq> Some (Some p)" and "weak_arcs s1 w1 = Some (Some p)"
      and "weak_arcs s2 w = Some (Some p)" and "arcs s2 v = None"
  shows "weak_expired w s2 = Inr True
       \<and> weak_lock v w s2 = Inr (s2\<lparr>arcs := (arcs s2)(v \<mapsto> None)\<rparr>)
       \<and> (\<exists>b. blocks s2 p = Some b \<and> cb_ref_count b = 0)
       \<and> (\<forall>u. arcs s2 u \<noteq> Some (Some p))"
proof -
  have l1: "length cs1 < 2 ^ 64" using assms(3) by simp
  have i1: "state_inv s1" and h1: "handles s1 \<le> length cs1"
    using reachable_inv [OF assms(1) l1] by simp_all
  obtain b1 where b1: "blocks s1 p = Some b1"
    using inv_weak_owner_live [OF i1 assms(5)] by auto
  have f1: "p < fresh s1" by (rule inv_counts(4) [OF i1 b1])
  have hb: "handles s1 + length cs2 < 2 ^ 64" using h1 assms(3) by simp
  have i2: "state_inv s2" using run_inv [OF i1 hb assms(2)] by simp
  have none: "\<forall>u. arcs s2 u \<noteq> Some (Some p)"
    by (rule run_no_resurrect [OF i1 hb assms(2) f1 assms(4)])
  obtain b2 where b2: "blocks s2 p = Some b2"
    using inv_weak_owner_live [OF i2 assms(6)] by auto
  have "{u. arcs s2 u = Some (Some p)} = {}" using none by auto
  then have "unat (cb_ref_count b2) = 0"
    using inv_counts(1) [OF i2 b2] by simp
  then have z: "cb_ref_count b2 = 0" by (simp add: unat_eq_zero)
  have "weak_expired w s2 = Inr True"
    using assms(6) b2 z by (simp add: weak_expired_def weak_use_count_def ref_count_def)
  moreover have "weak_lock v w s2 = Inr (s2\<lparr>arcs := (arcs s2)(v \<mapsto> None)\<rparr>)"
    using assms(6,7) b2 z by (simp add: weak_lock_def ref_count_def arc_default_def)
  ultimately show ?thesis using b2 z none by simp
qed

lemma arr_expiry_when_lock_is_indivisible:
  assumes "arr_run cs1 arr_init = Inr s1" and "arr_run cs2 s1 = Inr s2"
      and "length cs1 + length cs2 < 2 ^ 64"
      and "\<forall>u. arr_arcs s1 u \<noteq> Some (Some p)" and "arr_weak_arcs s1 w1 = Some (Some p)"
      and "arr_weak_arcs s2 w = Some (Some p)" and "arr_arcs s2 v = None"
  shows "arr_weak_expired w s2 = Inr True
       \<and> arr_weak_lock v w s2 = Inr (s2\<lparr>arr_arcs := (arr_arcs s2)(v \<mapsto> None)\<rparr>)
       \<and> (\<exists>b. arr_blocks s2 p = Some b \<and> acb_ref_count b = 0)
       \<and> (\<forall>u. arr_arcs s2 u \<noteq> Some (Some p))"
proof -
  have l1: "length cs1 < 2 ^ 64" using assms(3) by simp
  have i1: "arr_state_inv s1" and h1: "arr_handles s1 \<le> length cs1"
    using arr_reachable_inv [OF assms(1) l1] by simp_all
  obtain b1 where b1: "arr_blocks s1 p = Some b1"
    using arr_inv_weak_owner_live [OF i1 assms(5)] by auto
  have f1: "p < arr_fresh s1" by (rule arr_inv_counts(4) [OF i1 b1])
  have hb: "arr_handles s1 + length cs2 < 2 ^ 64" using h1 assms(3) by simp
  have i2: "arr_state_inv s2" using arr_run_inv [OF i1 hb assms(2)] by simp
  have none: "\<forall>u. arr_arcs s2 u \<noteq> Some (Some p)"
    by (rule arr_run_no_resurrect [OF i1 hb assms(2) f1 assms(4)])
  obtain b2 where b2: "arr_blocks s2 p = Some b2"
    using arr_inv_weak_owner_live [OF i2 assms(6)] by auto
  have "{u. arr_arcs s2 u = Some (Some p)} = {}" using none by auto
  then have "unat (acb_ref_count b2) = 0"
    using arr_inv_counts(1) [OF i2 b2] by simp
  then have z: "acb_ref_count b2 = 0" by (simp add: unat_eq_zero)
  have "arr_weak_expired w s2 = Inr True"
    using assms(6) b2 z by (simp add: arr_weak_expired_def arr_weak_use_count_def arr_ref_count_def)
  moreover have "arr_weak_lock v w s2 = Inr (s2\<lparr>arr_arcs := (arr_arcs s2)(v \<mapsto> None)\<rparr>)"
    using assms(6,7) b2 z by (simp add: arr_weak_lock_def arr_ref_count_def arr_arc_default_def)
  ultimately show ?thesis using b2 z none by simp
qed

text \<open>
  Claim C5. The claim asks this of every subsequent call on every thread, and that the
  strong count never returns to a nonzero value. The code does not deliver it when a
  \<^verbatim>\<open>lock()\<close> is in flight while the last strong handle is destroyed. Thread A, holding
  the weak handle 1, evaluates the condition of \<^verbatim>\<open>lock()\<close> and reads the count 1;
  thread B destroys the only strong handle 0, the count drops to 0 (in the array variant
  the buffer is deleted); thread A continues with \<^verbatim>\<open>return arc<T>(_block)\<close>, whose
  \<^verbatim>\<open>add_ref\<close> takes the count from 0 to 1. From then on \<^verbatim>\<open>expired()\<close> is false and
  a complete \<^verbatim>\<open>lock()\<close> returns a non-empty handle, although all strong handles of the
  allocation had been destroyed. The array handle obtained this way has a null
  \<^verbatim>\<open>get()\<close>; destroying the revived handle deallocates the block under the live weak
  handle, whose next \<^verbatim>\<open>expired()\<close> reads freed memory. The theorem evaluates the code
  along this interleaving, in both variants.
\<close>

theorem lock_race_revives_strong_count:
  "(\<exists>s0 s1 s2 s3 s4 :: unit state.
       run [ArcMake 0 (), WeakFromArc 1 0] init = Inr s0
     \<and> weak_lock_check 1 s0 = Inr True
     \<and> arc_dtor 0 s0 = Inr s1
     \<and> (\<forall>v. arcs s1 v \<noteq> Some (Some 0)) \<and> weak_arcs s1 1 = Some (Some 0)
     \<and> ref_count 0 s1 = Inr 0 \<and> weak_expired 1 s1 = Inr True
     \<and> weak_lock_return 2 1 True s1 = Inr s2
     \<and> ref_count 0 s2 = Inr 1 \<and> weak_expired 1 s2 = Inr False \<and> arc_bool 2 s2 = Inr True
     \<and> weak_lock 3 1 s2 = Inr s3 \<and> arc_bool 3 s3 = Inr True
     \<and> arc_dtor 2 s2 = Inr s4 \<and> trace s4 = [ObjectDestroyed 0, BlockFreed 0]
     \<and> weak_arcs s4 1 = Some (Some 0) \<and> weak_expired 1 s4 = Inl Dangling)
 \<and> (\<exists>t0 t1 t2 t3 t4 :: unit array_state.
       arr_run [ArrArcMake 0 3 (), ArrWeakFromArc 1 0] arr_init = Inr t0
     \<and> arr_weak_lock_check 1 t0 = Inr True
     \<and> arr_arc_dtor 0 t0 = Inr t1
     \<and> (\<forall>v. arr_arcs t1 v \<noteq> Some (Some 0)) \<and> arr_weak_arcs t1 1 = Some (Some 0)
     \<and> arr_ref_count 0 t1 = Inr 0 \<and> arr_weak_expired 1 t1 = Inr True
     \<and> arr_trace t1 = [BufferFreed 1]
     \<and> arr_weak_lock_return 2 1 True t1 = Inr t2
     \<and> arr_ref_count 0 t2 = Inr 1 \<and> arr_weak_expired 1 t2 = Inr False
     \<and> arr_arc_bool 2 t2 = Inr True \<and> arr_arc_get 2 t2 = Inr None
     \<and> arr_weak_lock 3 1 t2 = Inr t3 \<and> arr_arc_bool 3 t3 = Inr True
     \<and> arr_arc_dtor 2 t2 = Inr t4 \<and> arr_trace t4 = [BufferFreed 1, BlockFreed 0]
     \<and> arr_weak_arcs t4 1 = Some (Some 0) \<and> arr_weak_expired 1 t4 = Inl Dangling)"
  by (simp add: op_defs obs_defs arr_op_defs arr_obs_defs)

subsection \<open>Weak handle round trip\<close>

text \<open>
  The round trip in the single-object variant and in the array variant: from a reachable
  state with a non-null strong handle \<open>v\<close>, the weak handle built from \<open>v\<close> locks to a
  non-null strong handle with the payload address of \<open>v\<close>.
\<close>

lemma weak_roundtrip_single:
  assumes "run cs init = Inr s" and "length cs < 2 ^ 64"
      and "arcs s v = Some (Some p)" and "weak_arcs s w = None" and "arcs s r = None"
  shows "\<exists>s1 s2. weak_from_arc w v s = Inr s1 \<and> weak_lock r w s1 = Inr s2
           \<and> arcs s2 v = Some (Some p) \<and> arcs s2 r = Some (Some p)
           \<and> arc_bool r s2 = Inr True
           \<and> arc_get r s2 = Inr (ObjectOf p) \<and> arc_get v s2 = Inr (ObjectOf p)"
proof -
  have i: "state_inv s" by (rule reachable_inv(1) [OF assms(1,2)])
  have fin: "finite (dom (arcs s))" using i by (simp add: state_inv_def)
  obtain b where b: "blocks s p = Some b" using inv_owner_live [OF i assms(3)] by auto
  have "0 < card {u. arcs s u = Some (Some p)}"
    using card_owners_pos [OF fin assms(3)] by (simp add: owners_def)
  then have "0 < unat (cb_ref_count b)" using inv_counts(1) [OF i b] by simp
  then have nz: "cb_ref_count b \<noteq> 0" by (simp add: unat_gt_0)
  have rv: "r \<noteq> v" using assms(3,5) by auto
  define s1 where "s1 = s\<lparr>weak_arcs := (weak_arcs s)(w \<mapsto> Some p),
      blocks := (blocks s)(p \<mapsto> b\<lparr>cb_weak_count := cb_weak_count b + 1\<rparr>)\<rparr>"
  have e1: "weak_from_arc w v s = Inr s1"
    using assms(3,4) b by (simp add: weak_from_arc_def add_weak_ref_def s1_def)
  define s2 where "s2 = s1\<lparr>arcs := (arcs s1)(r \<mapsto> Some p),
      blocks := (blocks s1)(p \<mapsto> b\<lparr>cb_weak_count := cb_weak_count b + 1,
                                     cb_ref_count := cb_ref_count b + 1\<rparr>)\<rparr>"
  have e2: "weak_lock r w s1 = Inr s2"
    using assms(5) nz
    by (simp add: weak_lock_def ref_count_def arc_from_block_def add_ref_def s1_def s2_def
                  word_greater_zero_iff)
  have "arcs s2 v = Some (Some p)" "arcs s2 r = Some (Some p)"
    using assms(3) rv by (simp_all add: s1_def s2_def)
  then show ?thesis using e1 e2 by (auto simp: arc_bool_def arc_get_def)
qed

lemma weak_roundtrip_array:
  assumes "arr_run cs arr_init = Inr s" and "length cs < 2 ^ 64"
      and "arr_arcs s v = Some (Some p)" and "arr_weak_arcs s w = None" and "arr_arcs s r = None"
  shows "\<exists>s1 s2 d. arr_weak_from_arc w v s = Inr s1 \<and> arr_weak_lock r w s1 = Inr s2
           \<and> arr_arcs s2 v = Some (Some p) \<and> arr_arcs s2 r = Some (Some p)
           \<and> arr_arc_bool r s2 = Inr True
           \<and> arr_arc_get r s2 = Inr (Some d) \<and> arr_arc_get v s2 = Inr (Some d)
           \<and> arr_arc_get v s = Inr (Some d)"
proof -
  have i: "arr_state_inv s" by (rule arr_reachable_inv(1) [OF assms(1,2)])
  have fin: "finite (dom (arr_arcs s))" using i by (simp add: arr_state_inv_def)
  obtain b where b: "arr_blocks s p = Some b" using arr_inv_owner_live [OF i assms(3)] by auto
  have "0 < card {u. arr_arcs s u = Some (Some p)}"
    using card_owners_pos [OF fin assms(3)] by (simp add: owners_def)
  then have "0 < unat (acb_ref_count b)" using arr_inv_counts(1) [OF i b] by simp
  then have nz: "acb_ref_count b \<noteq> 0" by (simp add: unat_gt_0)
  have d: "acb_data b = Some (Suc p)" using arr_inv_counts(7) [OF i b] nz by simp
  have rv: "r \<noteq> v" using assms(3,5) by auto
  define s1 where "s1 = s\<lparr>arr_weak_arcs := (arr_weak_arcs s)(w \<mapsto> Some p),
      arr_blocks := (arr_blocks s)(p \<mapsto> b\<lparr>acb_weak_count := acb_weak_count b + 1\<rparr>)\<rparr>"
  have e1: "arr_weak_from_arc w v s = Inr s1"
    using assms(3,4) b by (simp add: arr_weak_from_arc_def arr_add_weak_ref_def s1_def)
  define s2 where "s2 = s1\<lparr>arr_arcs := (arr_arcs s1)(r \<mapsto> Some p),
      arr_blocks := (arr_blocks s1)(p \<mapsto> b\<lparr>acb_weak_count := acb_weak_count b + 1,
                                     acb_ref_count := acb_ref_count b + 1\<rparr>)\<rparr>"
  have e2: "arr_weak_lock r w s1 = Inr s2"
    using assms(5) nz
    by (simp add: arr_weak_lock_def arr_ref_count_def arr_arc_from_block_def arr_add_ref_def
                  s1_def s2_def word_greater_zero_iff)
  have a: "arr_arcs s2 v = Some (Some p)" "arr_arcs s2 r = Some (Some p)"
    using assms(3) rv by (simp_all add: s1_def s2_def)
  have g: "arr_arc_get r s2 = Inr (Some (Suc p))" "arr_arc_get v s2 = Inr (Some (Suc p))"
    using a d by (simp_all add: arr_arc_get_def s1_def s2_def)
  have g0: "arr_arc_get v s = Inr (Some (Suc p))"
    using assms(3) b d by (simp add: arr_arc_get_def)
  have "arr_arc_bool r s2 = Inr True" using a by (simp add: arr_arc_bool_def)
  then show ?thesis using e1 e2 a g g0 by blast
qed

text \<open>
  Claim C6. In every state reached by a program of either variant, for every non-null
  strong handle \<open>v\<close> of a block \<open>p\<close>: constructing a weak handle \<open>w\<close> from \<open>v\<close> and then
  calling \<^verbatim>\<open>lock()\<close> on \<open>w\<close>, while \<open>v\<close> is alive, succeeds and yields a non-null
  strong handle \<open>r\<close> of the same block, and \<^verbatim>\<open>get()\<close> of \<open>r\<close> is the payload address
  that \<^verbatim>\<open>get()\<close> of \<open>v\<close> returns (the address of \<^verbatim>\<open>_object\<close> in \<open>p\<close>, or the
  non-null \<^verbatim>\<open>_data\<close> buffer of the array block).
\<close>

theorem weak_roundtrip:
  "(run cs init = Inr s \<and> length cs < 2 ^ 64
      \<and> arcs s v = Some (Some p) \<and> weak_arcs s w = None \<and> arcs s r = None \<longrightarrow>
    (\<exists>s1 s2. weak_from_arc w v s = Inr s1 \<and> weak_lock r w s1 = Inr s2
           \<and> arcs s2 v = Some (Some p) \<and> arcs s2 r = Some (Some p)
           \<and> arc_bool r s2 = Inr True
           \<and> arc_get r s2 = Inr (ObjectOf p) \<and> arc_get v s2 = Inr (ObjectOf p)))
 \<and> (arr_run acs arr_init = Inr t \<and> length acs < 2 ^ 64
      \<and> arr_arcs t v' = Some (Some p') \<and> arr_weak_arcs t w' = None \<and> arr_arcs t r' = None \<longrightarrow>
    (\<exists>t1 t2 d. arr_weak_from_arc w' v' t = Inr t1 \<and> arr_weak_lock r' w' t1 = Inr t2
           \<and> arr_arcs t2 v' = Some (Some p') \<and> arr_arcs t2 r' = Some (Some p')
           \<and> arr_arc_bool r' t2 = Inr True
           \<and> arr_arc_get r' t2 = Inr (Some d) \<and> arr_arc_get v' t2 = Inr (Some d)
           \<and> arr_arc_get v' t = Inr (Some d)))"
  using weak_roundtrip_single [of cs s v p w r] weak_roundtrip_array [of acs t v' p' w' r']
  by blast

theorem weak_roundtrip_witness:
  "(\<exists>s s1 s2. run [ArcMake 0 ()] init = Inr s \<and> arcs s 0 = Some (Some 0)
       \<and> weak_arcs s 1 = None \<and> arcs s 2 = None
       \<and> weak_from_arc 1 0 s = Inr s1 \<and> weak_lock 2 1 s1 = Inr s2
       \<and> arc_bool 2 s2 = Inr True \<and> arc_get 2 s2 = Inr (ObjectOf 0)
       \<and> arc_get 0 s2 = Inr (ObjectOf 0))
 \<and> (\<exists>t t1 t2 d. arr_run [ArrArcMake 0 3 ()] arr_init = Inr t \<and> arr_arcs t 0 = Some (Some 0)
       \<and> arr_weak_arcs t 1 = None \<and> arr_arcs t 2 = None
       \<and> arr_weak_from_arc 1 0 t = Inr t1 \<and> arr_weak_lock 2 1 t1 = Inr t2
       \<and> arr_arc_bool 2 t2 = Inr True \<and> arr_arc_get 2 t2 = Inr (Some d)
       \<and> arr_arc_get 0 t2 = Inr (Some d))"
proof -
  obtain s :: "unit state" where s: "run [ArcMake 0 ()] init = Inr s"
    by (simp add: op_defs)
  have len: "length [ArcMake 0 () :: unit op] < (2::nat) ^ 64" by simp
  have hs: "arcs s 0 = Some (Some 0)" "weak_arcs s 1 = None" "arcs s 2 = None"
    using s by (auto simp: op_defs)
  obtain t :: "unit array_state" where t: "arr_run [ArrArcMake 0 3 ()] arr_init = Inr t"
    by (simp add: arr_op_defs)
  have alen: "length [ArrArcMake 0 3 () :: unit arr_op] < (2::nat) ^ 64" by simp
  have ht: "arr_arcs t 0 = Some (Some 0)" "arr_weak_arcs t 1 = None" "arr_arcs t 2 = None"
    using t by (auto simp: arr_op_defs)
  have a: "\<exists>s1 s2. weak_from_arc 1 0 s = Inr s1 \<and> weak_lock 2 1 s1 = Inr s2
           \<and> arc_bool 2 s2 = Inr True
           \<and> arc_get 2 s2 = Inr (ObjectOf 0) \<and> arc_get 0 s2 = Inr (ObjectOf 0)"
    using weak_roundtrip [of "[ArcMake 0 ()]" s 0 0 1 2 "[ArrArcMake 0 3 ()]" t 0 0 1 2]
      s len hs by blast
  have b: "\<exists>t1 t2 d. arr_weak_from_arc 1 0 t = Inr t1 \<and> arr_weak_lock 2 1 t1 = Inr t2
           \<and> arr_arc_bool 2 t2 = Inr True
           \<and> arr_arc_get 2 t2 = Inr (Some d) \<and> arr_arc_get 0 t2 = Inr (Some d)"
    using weak_roundtrip [of "[ArcMake 0 ()]" s 0 0 1 2 "[ArrArcMake 0 3 ()]" t 0 0 1 2]
      t alen ht by blast
  show ?thesis using a b s hs t ht by blast
qed

subsection \<open>Counting clones\<close>

lemma unat_of_nat_small:
  "n < 2 ^ 64 \<Longrightarrow> unat (of_nat n :: size_t) = n"
  by (simp add: unat_of_nat)

lemma clones_copy:
  assumes "arc_copy v u s = Inr s'" and "finite (dom (arcs s))"
      and "card (dom (arcs s)) = k" and "\<forall>v blk. arcs s v = Some blk \<longrightarrow> blk = Some p"
      and "blocks s p = Some b" and "cb_ref_count b = of_nat k"
  shows "finite (dom (arcs s')) \<and> card (dom (arcs s')) = Suc k
       \<and> (\<forall>v blk. arcs s' v = Some blk \<longrightarrow> blk = Some p)
       \<and> (\<exists>b'. blocks s' p = Some b' \<and> cb_ref_count b' = of_nat (Suc k))"
proof -
  have v: "arcs s v = None"
    using assms(1) by (auto simp: arc_copy_def split: option.splits)
  obtain blk where u: "arcs s u = Some blk"
    using assms(1) v by (auto simp: arc_copy_def split: option.splits)
  have blk: "blk = Some p" using assms(4) u by blast
  have s': "s' = s\<lparr>arcs := (arcs s)(v \<mapsto> Some p),
                    blocks := (blocks s)(p \<mapsto> b\<lparr>cb_ref_count := cb_ref_count b + 1\<rparr>)\<rparr>"
    using assms(1,5) v u blk by (simp add: arc_copy_def add_ref_def)
  have d: "dom (arcs s') = insert v (dom (arcs s))" using s' by simp
  have nv: "v \<notin> dom (arcs s)" using v by (simp add: domIff)
  have c: "card (dom (arcs s')) = Suc k"
    using d nv assms(2,3) by simp
  have f: "finite (dom (arcs s'))" using d assms(2) by simp
  have a: "\<forall>v blk. arcs s' v = Some blk \<longrightarrow> blk = Some p"
    using assms(4) s' by simp
  have "blocks s' p = Some (b\<lparr>cb_ref_count := cb_ref_count b + 1\<rparr>)"
    using s' by simp
  moreover have "cb_ref_count (b\<lparr>cb_ref_count := cb_ref_count b + 1\<rparr>) = of_nat (Suc k)"
    using assms(6) by simp
  ultimately show ?thesis using f c a by blast
qed

lemma clones_run:
  assumes "run cs s = Inr s'" and "list_all is_arc_copy cs" and "finite (dom (arcs s))"
      and "card (dom (arcs s)) = k" and "\<forall>v blk. arcs s v = Some blk \<longrightarrow> blk = Some p"
      and "blocks s p = Some b" and "cb_ref_count b = of_nat k"
  shows "finite (dom (arcs s')) \<and> card (dom (arcs s')) = k + length cs
       \<and> (\<forall>v blk. arcs s' v = Some blk \<longrightarrow> blk = Some p)
       \<and> (\<exists>b'. blocks s' p = Some b' \<and> cb_ref_count b' = of_nat (k + length cs))"
  using assms
proof (induction cs arbitrary: s k b)
  case Nil
  then show ?case by simp
next
  case (Cons c cs)
  obtain v u where c: "c = ArcCopy v u"
    using Cons.prems(2) by (cases c) simp_all
  obtain s1 where s1: "arc_copy v u s = Inr s1" and r: "run cs s1 = Inr s'"
    using Cons.prems(1) c by (auto split: sum.splits)
  have st: "finite (dom (arcs s1)) \<and> card (dom (arcs s1)) = Suc k
       \<and> (\<forall>v blk. arcs s1 v = Some blk \<longrightarrow> blk = Some p)
       \<and> (\<exists>b'. blocks s1 p = Some b' \<and> cb_ref_count b' = of_nat (Suc k))"
    by (rule clones_copy [OF s1 Cons.prems(3,4,5,6,7)])
  then obtain b1 where b1: "blocks s1 p = Some b1" "cb_ref_count b1 = of_nat (Suc k)"
    by blast
  have rest: "list_all is_arc_copy cs" using Cons.prems(2) by simp
  have "finite (dom (arcs s')) \<and> card (dom (arcs s')) = Suc k + length cs
       \<and> (\<forall>v blk. arcs s' v = Some blk \<longrightarrow> blk = Some p)
       \<and> (\<exists>b'. blocks s' p = Some b' \<and> cb_ref_count b' = of_nat (Suc k + length cs))"
    using Cons.IH [OF r rest _ _ _ b1] st by blast
  then show ?case by simp
qed

lemma clones_use_count_single:
  assumes "run (ArcMake v0 x # cs) init = Inr s" and "list_all is_arc_copy cs"
      and "Suc (length cs) < 2 ^ 64" and "arcs s v = Some blk"
  shows "card (dom (arcs s)) = Suc (length cs) \<and> blk = Some 0
       \<and> (\<exists>k. arc_use_count v s = Inr k \<and> unat k = Suc (length cs))"
proof -
  define s0 :: "'a state" where "s0 = \<lparr>blocks = [0 \<mapsto> \<lparr>cb_ref_count = 1, cb_weak_count = 1, cb_object = x\<rparr>],
      fresh = Suc 0, arcs = [v0 \<mapsto> Some 0], weak_arcs = Map.empty, trace = []\<rparr>"
  have m: "arc_make v0 x init = Inr s0" by (simp add: arc_make_def init_def s0_def)
  have r: "run cs s0 = Inr s" using assms(1) m by simp
  have "finite (dom (arcs s)) \<and> card (dom (arcs s)) = 1 + length cs
       \<and> (\<forall>v blk. arcs s v = Some blk \<longrightarrow> blk = Some 0)
       \<and> (\<exists>b'. blocks s 0 = Some b' \<and> cb_ref_count b' = of_nat (1 + length cs))"
    by (rule clones_run [OF r assms(2), where b = "\<lparr>cb_ref_count = 1, cb_weak_count = 1, cb_object = x\<rparr>"])
       (simp_all add: s0_def)
  then obtain b' where c: "card (dom (arcs s)) = Suc (length cs)"
      and a: "\<forall>v blk. arcs s v = Some blk \<longrightarrow> blk = Some 0"
      and b': "blocks s 0 = Some b'" "cb_ref_count b' = of_nat (Suc (length cs))"
    by auto
  have blk: "blk = Some 0" using a assms(4) by blast
  have u: "arc_use_count v s = Inr (cb_ref_count b')"
    using assms(4) blk b'(1) by (simp add: arc_use_count_def ref_count_def)
  have "unat (of_nat (Suc (length cs)) :: size_t) = Suc (length cs)"
    by (rule unat_of_nat_small [OF assms(3)])
  then have "unat (cb_ref_count b') = Suc (length cs)" by (simp only: b'(2))
  then show ?thesis using c blk u by blast
qed

lemma arr_clones_copy:
  assumes "arr_arc_copy v u s = Inr s'" and "finite (dom (arr_arcs s))"
      and "card (dom (arr_arcs s)) = k" and "\<forall>v blk. arr_arcs s v = Some blk \<longrightarrow> blk = Some p"
      and "arr_blocks s p = Some b" and "acb_ref_count b = of_nat k"
  shows "finite (dom (arr_arcs s')) \<and> card (dom (arr_arcs s')) = Suc k
       \<and> (\<forall>v blk. arr_arcs s' v = Some blk \<longrightarrow> blk = Some p)
       \<and> (\<exists>b'. arr_blocks s' p = Some b' \<and> acb_ref_count b' = of_nat (Suc k))"
proof -
  have v: "arr_arcs s v = None"
    using assms(1) by (auto simp: arr_arc_copy_def split: option.splits)
  obtain blk where u: "arr_arcs s u = Some blk"
    using assms(1) v by (auto simp: arr_arc_copy_def split: option.splits)
  have blk: "blk = Some p" using assms(4) u by blast
  have s': "s' = s\<lparr>arr_arcs := (arr_arcs s)(v \<mapsto> Some p),
                    arr_blocks := (arr_blocks s)(p \<mapsto> b\<lparr>acb_ref_count := acb_ref_count b + 1\<rparr>)\<rparr>"
    using assms(1,5) v u blk by (simp add: arr_arc_copy_def arr_add_ref_def)
  have d: "dom (arr_arcs s') = insert v (dom (arr_arcs s))" using s' by simp
  have nv: "v \<notin> dom (arr_arcs s)" using v by (simp add: domIff)
  have c: "card (dom (arr_arcs s')) = Suc k"
    using d nv assms(2,3) by simp
  have f: "finite (dom (arr_arcs s'))" using d assms(2) by simp
  have a: "\<forall>v blk. arr_arcs s' v = Some blk \<longrightarrow> blk = Some p"
    using assms(4) s' by simp
  have "arr_blocks s' p = Some (b\<lparr>acb_ref_count := acb_ref_count b + 1\<rparr>)"
    using s' by simp
  moreover have "acb_ref_count (b\<lparr>acb_ref_count := acb_ref_count b + 1\<rparr>) = of_nat (Suc k)"
    using assms(6) by simp
  ultimately show ?thesis using f c a by blast
qed

lemma arr_clones_run:
  assumes "arr_run cs s = Inr s'" and "list_all is_arr_arc_copy cs" and "finite (dom (arr_arcs s))"
      and "card (dom (arr_arcs s)) = k" and "\<forall>v blk. arr_arcs s v = Some blk \<longrightarrow> blk = Some p"
      and "arr_blocks s p = Some b" and "acb_ref_count b = of_nat k"
  shows "finite (dom (arr_arcs s')) \<and> card (dom (arr_arcs s')) = k + length cs
       \<and> (\<forall>v blk. arr_arcs s' v = Some blk \<longrightarrow> blk = Some p)
       \<and> (\<exists>b'. arr_blocks s' p = Some b' \<and> acb_ref_count b' = of_nat (k + length cs))"
  using assms
proof (induction cs arbitrary: s k b)
  case Nil
  then show ?case by simp
next
  case (Cons c cs)
  obtain v u where c: "c = ArrArcCopy v u"
    using Cons.prems(2) by (cases c) simp_all
  obtain s1 where s1: "arr_arc_copy v u s = Inr s1" and r: "arr_run cs s1 = Inr s'"
    using Cons.prems(1) c by (auto split: sum.splits)
  have st: "finite (dom (arr_arcs s1)) \<and> card (dom (arr_arcs s1)) = Suc k
       \<and> (\<forall>v blk. arr_arcs s1 v = Some blk \<longrightarrow> blk = Some p)
       \<and> (\<exists>b'. arr_blocks s1 p = Some b' \<and> acb_ref_count b' = of_nat (Suc k))"
    by (rule arr_clones_copy [OF s1 Cons.prems(3,4,5,6,7)])
  then obtain b1 where b1: "arr_blocks s1 p = Some b1" "acb_ref_count b1 = of_nat (Suc k)"
    by blast
  have rest: "list_all is_arr_arc_copy cs" using Cons.prems(2) by simp
  have "finite (dom (arr_arcs s')) \<and> card (dom (arr_arcs s')) = Suc k + length cs
       \<and> (\<forall>v blk. arr_arcs s' v = Some blk \<longrightarrow> blk = Some p)
       \<and> (\<exists>b'. arr_blocks s' p = Some b' \<and> acb_ref_count b' = of_nat (Suc k + length cs))"
    using Cons.IH [OF r rest _ _ _ b1] st by blast
  then show ?case by simp
qed

lemma clones_use_count_array:
  assumes "arr_run (ArrArcMake v0 n x # cs) arr_init = Inr s" and "list_all is_arr_arc_copy cs"
      and "Suc (length cs) < 2 ^ 64" and "arr_arcs s v = Some blk"
  shows "card (dom (arr_arcs s)) = Suc (length cs) \<and> blk = Some 0
       \<and> (\<exists>k. arr_arc_use_count v s = Inr k \<and> unat k = Suc (length cs))"
proof -
  define s0 :: "'a array_state" where "s0 = \<lparr>arr_blocks = [0 \<mapsto> \<lparr>acb_ref_count = 1, acb_weak_count = 1, acb_data = Some (Suc 0), acb_size = n\<rparr>],
      arr_buffers = [Suc 0 \<mapsto> replicate (unat n) x],
      arr_fresh = Suc (Suc 0), arr_arcs = [v0 \<mapsto> Some 0], arr_weak_arcs = Map.empty, arr_trace = []\<rparr>"
  have m: "arr_arc_make v0 n x arr_init = Inr s0" by (simp add: arr_arc_make_def arr_init_def s0_def)
  have r: "arr_run cs s0 = Inr s" using assms(1) m by simp
  have "finite (dom (arr_arcs s)) \<and> card (dom (arr_arcs s)) = 1 + length cs
       \<and> (\<forall>v blk. arr_arcs s v = Some blk \<longrightarrow> blk = Some 0)
       \<and> (\<exists>b'. arr_blocks s 0 = Some b' \<and> acb_ref_count b' = of_nat (1 + length cs))"
    by (rule arr_clones_run [OF r assms(2), where b = "\<lparr>acb_ref_count = 1, acb_weak_count = 1, acb_data = Some (Suc 0), acb_size = n\<rparr>"])
       (simp_all add: s0_def)
  then obtain b' where c: "card (dom (arr_arcs s)) = Suc (length cs)"
      and a: "\<forall>v blk. arr_arcs s v = Some blk \<longrightarrow> blk = Some 0"
      and b': "arr_blocks s 0 = Some b'" "acb_ref_count b' = of_nat (Suc (length cs))"
    by auto
  have blk: "blk = Some 0" using a assms(4) by blast
  have u: "arr_arc_use_count v s = Inr (acb_ref_count b')"
    using assms(4) blk b'(1) by (simp add: arr_arc_use_count_def arr_ref_count_def)
  have "unat (of_nat (Suc (length cs)) :: size_t) = Suc (length cs)"
    by (rule unat_of_nat_small [OF assms(3)])
  then have "unat (acb_ref_count b') = Suc (length cs)" by (simp only: b'(2))
  then show ?thesis using c blk u by blast
qed

text \<open>
  Claim C7. A program that constructs one strong handle and then only copy-constructs
  strong handles (from the original or from any earlier copy) and runs without fault
  leaves exactly \<open>N = 1 + length cs\<close> handle objects, all of them clones of the one block,
  and \<^verbatim>\<open>use_count()\<close> of every one of them returns \<open>N\<close>. The counter is a
  \<^verbatim>\<open>std::size_t\<close>, so \<open>N\<close> is taken below \<open>2 ^ 64\<close>. The same holds for the array
  variant.
\<close>

theorem clones_report_their_number:
  "(run (ArcMake v0 x # cs) init = Inr s \<and> list_all is_arc_copy cs
      \<and> Suc (length cs) < 2 ^ 64 \<and> arcs s v = Some blk \<longrightarrow>
      card (dom (arcs s)) = Suc (length cs) \<and> blk = Some 0
    \<and> (\<exists>k. arc_use_count v s = Inr k \<and> unat k = Suc (length cs)))
 \<and> (arr_run (ArrArcMake v0' n y # acs) arr_init = Inr t \<and> list_all is_arr_arc_copy acs
      \<and> Suc (length acs) < 2 ^ 64 \<and> arr_arcs t v' = Some blk' \<longrightarrow>
      card (dom (arr_arcs t)) = Suc (length acs) \<and> blk' = Some 0
    \<and> (\<exists>k. arr_arc_use_count v' t = Inr k \<and> unat k = Suc (length acs)))"
  using clones_use_count_single [of v0 x cs s v blk]
        clones_use_count_array [of v0' n y acs t v' blk']
  by blast

theorem clones_report_their_number_witness:
  "(\<exists>(s::unit state) k. run [ArcMake 0 (), ArcCopy 2 0, ArcCopy 4 2] init = Inr s
       \<and> arcs s 4 = Some (Some 0) \<and> card (dom (arcs s)) = 3
       \<and> arc_use_count 4 s = Inr k \<and> unat k = 3)
 \<and> (\<exists>(t::unit array_state) k.
         arr_run [ArrArcMake 0 5 (), ArrArcCopy 2 0, ArrArcCopy 4 2] arr_init = Inr t
       \<and> arr_arcs t 4 = Some (Some 0) \<and> card (dom (arr_arcs t)) = 3
       \<and> arr_arc_use_count 4 t = Inr k \<and> unat k = 3)"
proof -
  obtain s :: "unit state"
    where s: "run [ArcMake 0 (), ArcCopy 2 0, ArcCopy 4 2] init = Inr s"
    by (simp add: op_defs)
  have hs: "arcs s 4 = Some (Some 0)" using s by (auto simp: op_defs)
  have cs: "list_all is_arc_copy [ArcCopy 2 0, ArcCopy 4 2 :: unit op]" by simp
  have len: "Suc (length [ArcCopy 2 0, ArcCopy 4 2 :: unit op]) < 2 ^ 64" by simp
  obtain t :: "unit array_state"
    where t: "arr_run [ArrArcMake 0 5 (), ArrArcCopy 2 0, ArrArcCopy 4 2] arr_init = Inr t"
    by (simp add: arr_op_defs)
  have ht: "arr_arcs t 4 = Some (Some 0)" using t by (auto simp: arr_op_defs)
  have acs: "list_all is_arr_arc_copy [ArrArcCopy 2 0, ArrArcCopy 4 2 :: unit arr_op]"
    by simp
  have alen: "Suc (length [ArrArcCopy 2 0, ArrArcCopy 4 2 :: unit arr_op]) < 2 ^ 64" by simp
  note inst = clones_report_their_number
      [of 0 "()" "[ArcCopy 2 0, ArcCopy 4 2]" s 4 "Some 0"
          0 5 "()" "[ArrArcCopy 2 0, ArrArcCopy 4 2]" t 4 "Some 0"]
  have a: "card (dom (arcs s)) = Suc (length [ArcCopy 2 0, ArcCopy 4 2 :: unit op])
      \<and> (\<exists>k. arc_use_count 4 s = Inr k
              \<and> unat k = Suc (length [ArcCopy 2 0, ArcCopy 4 2 :: unit op]))"
    using conjunct1 [OF inst] s cs len hs by blast
  have b: "card (dom (arr_arcs t)) = Suc (length [ArrArcCopy 2 0, ArrArcCopy 4 2 :: unit arr_op])
      \<and> (\<exists>k. arr_arc_use_count 4 t = Inr k
              \<and> unat k = Suc (length [ArrArcCopy 2 0, ArrArcCopy 4 2 :: unit arr_op]))"
    using conjunct2 [OF inst] t acs alen ht by blast
  have a': "card (dom (arcs s)) = 3 \<and> (\<exists>k. arc_use_count 4 s = Inr k \<and> unat k = 3)"
    using a by (simp add: eval_nat_numeral)
  have b': "card (dom (arr_arcs t)) = 3 \<and> (\<exists>k. arr_arc_use_count 4 t = Inr k \<and> unat k = 3)"
    using b by (simp add: eval_nat_numeral)
  show ?thesis using s hs a' t ht b' by blast
qed

subsection \<open>Null handles\<close>





subsection \<open>Moving handles\<close>

text \<open>
  Counterexample to claim C9 as stated: move assignment is not a pure transfer. With two strong handles \<open>0\<close> and \<open>1\<close> of one
  block (strong count 2), \<^verbatim>\<open>h0 = std::move(h1)\<close> first releases the block \<open>h0\<close> held:
  the strong count of the transferred block drops from 2 to 1. With two weak handles of one
  block the weak count drops in the same way (here from 3 to 2, the strong side holding
  one unit). And the self-assignment \<^verbatim>\<open>h0 = std::move(h0)\<close> is skipped by the guard
  \<^verbatim>\<open>this != &other\<close>, so the moved-from handle keeps its block: it is still
  boolean-true with \<^verbatim>\<open>use_count()\<close> 2. The same happens in the array variant.
\<close>

theorem move_assign_changes_counts:
  "(\<exists>(s::unit state) s' b b'.
       run [ArcMake 0 (), ArcCopy 1 0] init = Inr s
     \<and> blocks s 0 = Some b \<and> cb_ref_count b = 2 \<and> cb_weak_count b = 1
     \<and> arc_use_count 0 s = Inr 2 \<and> arc_use_count 1 s = Inr 2
     \<and> arc_move_assign 0 1 s = Inr s'
     \<and> blocks s' 0 = Some b' \<and> cb_ref_count b' = 1 \<and> cb_weak_count b' = 1
     \<and> arc_use_count 0 s' = Inr 1
     \<and> arc_move_assign 0 0 s = Inr s \<and> arc_bool 0 s = Inr True)
 \<and> (\<exists>(s::unit state) s' b b'.
       run [ArcMake 0 (), WeakFromArc 0 0, WeakCopy 1 0] init = Inr s
     \<and> blocks s 0 = Some b \<and> cb_ref_count b = 1 \<and> cb_weak_count b = 3
     \<and> weak_move_assign 0 1 s = Inr s'
     \<and> blocks s' 0 = Some b' \<and> cb_ref_count b' = 1 \<and> cb_weak_count b' = 2
     \<and> weak_move_assign 0 0 s = Inr s \<and> weak_arcs s 0 = Some (Some 0))
 \<and> (\<exists>(t::unit array_state) t' b b'.
       arr_run [ArrArcMake 0 3 (), ArrArcCopy 1 0] arr_init = Inr t
     \<and> arr_blocks t 0 = Some b \<and> acb_ref_count b = 2 \<and> acb_weak_count b = 1
     \<and> arr_arc_use_count 0 t = Inr 2 \<and> arr_arc_use_count 1 t = Inr 2
     \<and> arr_arc_move_assign 0 1 t = Inr t'
     \<and> arr_blocks t' 0 = Some b' \<and> acb_ref_count b' = 1 \<and> acb_weak_count b' = 1
     \<and> arr_arc_use_count 0 t' = Inr 1
     \<and> arr_arc_move_assign 0 0 t = Inr t \<and> arr_arc_bool 0 t = Inr True)
 \<and> (\<exists>(t::unit array_state) t' b b'.
       arr_run [ArrArcMake 0 3 (), ArrWeakFromArc 0 0, ArrWeakCopy 1 0] arr_init = Inr t
     \<and> arr_blocks t 0 = Some b \<and> acb_ref_count b = 1 \<and> acb_weak_count b = 3
     \<and> arr_weak_move_assign 0 1 t = Inr t'
     \<and> arr_blocks t' 0 = Some b' \<and> acb_ref_count b' = 1 \<and> acb_weak_count b' = 2
     \<and> arr_weak_move_assign 0 0 t = Inr t \<and> arr_weak_arcs t 0 = Some (Some 0))"
  by (simp add: op_defs obs_defs arr_op_defs arr_obs_defs)

lemma move_spec_single:
  "(arcs s u = Some blk \<and> arcs s v = None \<longrightarrow>
      (\<exists>s'. arc_move v u s = Inr s' \<and> s' = s\<lparr>arcs := (arcs s)(u \<mapsto> None, v \<mapsto> blk)\<rparr>
          \<and> blocks s' = blocks s \<and> trace s' = trace s \<and> arcs s' v = Some blk
          \<and> arc_bool u s' = Inr False \<and> arc_use_count u s' = Inr 0))
 \<and> (arcs s u = Some blk \<and> arcs s v = Some None \<and> v \<noteq> u \<longrightarrow>
      (\<exists>s'. arc_move_assign v u s = Inr s'
          \<and> s' = s\<lparr>arcs := (arcs s)(u \<mapsto> None, v \<mapsto> blk)\<rparr>
          \<and> blocks s' = blocks s \<and> trace s' = trace s \<and> arcs s' v = Some blk
          \<and> arc_bool u s' = Inr False \<and> arc_use_count u s' = Inr 0))
 \<and> (arcs s u = Some blk \<and> arcs s v = Some mine \<and> v \<noteq> u \<longrightarrow>
      arc_move_assign v u s =
        (case arc_dtor v s of Inl e \<Rightarrow> Inl e | Inr s1 \<Rightarrow> arc_move v u s1))
 \<and> (arcs s u = Some blk \<and> arcs s v = Some (Some q) \<and> v \<noteq> u
      \<and> blocks s q = Some b \<and> cb_ref_count b \<noteq> 1 \<longrightarrow>
      (\<exists>s'. arc_move_assign v u s = Inr s'
          \<and> s' = s\<lparr>blocks := (blocks s)(q \<mapsto> b\<lparr>cb_ref_count := cb_ref_count b - 1\<rparr>),
                   arcs := (arcs s)(u \<mapsto> None, v \<mapsto> blk)\<rparr>
          \<and> trace s' = trace s \<and> arcs s' v = Some blk
          \<and> arc_bool u s' = Inr False \<and> arc_use_count u s' = Inr 0))
 \<and> (arcs s v = Some mine \<longrightarrow> arc_move_assign v v s = Inr s)
 \<and> (weak_arcs s u = Some blk \<and> weak_arcs s v = None \<longrightarrow>
      (\<exists>s'. weak_move v u s = Inr s'
          \<and> s' = s\<lparr>weak_arcs := (weak_arcs s)(u \<mapsto> None, v \<mapsto> blk)\<rparr>
          \<and> blocks s' = blocks s \<and> trace s' = trace s \<and> weak_arcs s' v = Some blk
          \<and> weak_use_count u s' = Inr 0 \<and> weak_expired u s' = Inr True))
 \<and> (weak_arcs s u = Some blk \<and> weak_arcs s v = Some None \<and> v \<noteq> u \<longrightarrow>
      (\<exists>s'. weak_move_assign v u s = Inr s'
          \<and> s' = s\<lparr>weak_arcs := (weak_arcs s)(u \<mapsto> None, v \<mapsto> blk)\<rparr>
          \<and> blocks s' = blocks s \<and> trace s' = trace s \<and> weak_arcs s' v = Some blk
          \<and> weak_use_count u s' = Inr 0 \<and> weak_expired u s' = Inr True))
 \<and> (weak_arcs s u = Some blk \<and> weak_arcs s v = Some mine \<and> v \<noteq> u \<longrightarrow>
      weak_move_assign v u s =
        (case weak_dtor v s of Inl e \<Rightarrow> Inl e | Inr s1 \<Rightarrow> weak_move v u s1))
 \<and> (weak_arcs s u = Some blk \<and> weak_arcs s v = Some (Some q) \<and> v \<noteq> u
      \<and> blocks s q = Some b \<and> cb_weak_count b \<noteq> 1 \<longrightarrow>
      (\<exists>s'. weak_move_assign v u s = Inr s'
          \<and> s' = s\<lparr>blocks := (blocks s)(q \<mapsto> b\<lparr>cb_weak_count := cb_weak_count b - 1\<rparr>),
                   weak_arcs := (weak_arcs s)(u \<mapsto> None, v \<mapsto> blk)\<rparr>
          \<and> trace s' = trace s \<and> weak_arcs s' v = Some blk
          \<and> weak_use_count u s' = Inr 0 \<and> weak_expired u s' = Inr True))
 \<and> (weak_arcs s v = Some mine \<longrightarrow> weak_move_assign v v s = Inr s)"
proof -
  have m1: "arcs s u = Some blk \<and> arcs s v = None \<longrightarrow>
      (\<exists>s'. arc_move v u s = Inr s' \<and> s' = s\<lparr>arcs := (arcs s)(u \<mapsto> None, v \<mapsto> blk)\<rparr>
          \<and> blocks s' = blocks s \<and> trace s' = trace s \<and> arcs s' v = Some blk
          \<and> arc_bool u s' = Inr False \<and> arc_use_count u s' = Inr 0)"
    by (auto simp: arc_move_def arc_bool_def arc_use_count_def)
  have m2: "arcs s u = Some blk \<and> arcs s v = Some None \<and> v \<noteq> u \<longrightarrow>
      (\<exists>s'. arc_move_assign v u s = Inr s'
          \<and> s' = s\<lparr>arcs := (arcs s)(u \<mapsto> None, v \<mapsto> blk)\<rparr>
          \<and> blocks s' = blocks s \<and> trace s' = trace s \<and> arcs s' v = Some blk
          \<and> arc_bool u s' = Inr False \<and> arc_use_count u s' = Inr 0)"
    by (auto simp: arc_move_assign_def arc_bool_def arc_use_count_def)
  have m3: "arcs s u = Some blk \<and> arcs s v = Some mine \<and> v \<noteq> u \<longrightarrow>
      arc_move_assign v u s =
        (case arc_dtor v s of Inl e \<Rightarrow> Inl e | Inr s1 \<Rightarrow> arc_move v u s1)"
  proof (intro impI, elim conjE)
    assume h: "arcs s u = Some blk" "arcs s v = Some mine" "v \<noteq> u"
    show "arc_move_assign v u s =
        (case arc_dtor v s of Inl e \<Rightarrow> Inl e | Inr s1 \<Rightarrow> arc_move v u s1)"
    proof (cases "case mine of None \<Rightarrow> Inr s | Some p \<Rightarrow> release_ref p s")
      case (Inl e)
      then show ?thesis using h by (simp add: arc_move_assign_def arc_dtor_def)
    next
      case (Inr s1)
      have f: "arcs s1 = arcs s" using reset_frame [OF Inr] by simp
      have tw: "(arcs s)(v := None, u \<mapsto> None, v \<mapsto> blk) = (arcs s)(u \<mapsto> None, v \<mapsto> blk)"
        using h(3) by (auto simp: fun_eq_iff)
      show ?thesis using h Inr f tw
        by (simp add: arc_move_assign_def arc_dtor_def arc_move_def)
    qed
  qed
  have m4: "arcs s u = Some blk \<and> arcs s v = Some (Some q) \<and> v \<noteq> u
      \<and> blocks s q = Some b \<and> cb_ref_count b \<noteq> 1 \<longrightarrow>
      (\<exists>s'. arc_move_assign v u s = Inr s'
          \<and> s' = s\<lparr>blocks := (blocks s)(q \<mapsto> b\<lparr>cb_ref_count := cb_ref_count b - 1\<rparr>),
                   arcs := (arcs s)(u \<mapsto> None, v \<mapsto> blk)\<rparr>
          \<and> trace s' = trace s \<and> arcs s' v = Some blk
          \<and> arc_bool u s' = Inr False \<and> arc_use_count u s' = Inr 0)"
    by (auto simp: arc_move_assign_def release_ref_def arc_bool_def arc_use_count_def)
  have m5: "arcs s v = Some mine \<longrightarrow> arc_move_assign v v s = Inr s"
    by (simp add: arc_move_assign_def)
  have w1: "weak_arcs s u = Some blk \<and> weak_arcs s v = None \<longrightarrow>
      (\<exists>s'. weak_move v u s = Inr s'
          \<and> s' = s\<lparr>weak_arcs := (weak_arcs s)(u \<mapsto> None, v \<mapsto> blk)\<rparr>
          \<and> blocks s' = blocks s \<and> trace s' = trace s \<and> weak_arcs s' v = Some blk
          \<and> weak_use_count u s' = Inr 0 \<and> weak_expired u s' = Inr True)"
    by (auto simp: weak_move_def weak_use_count_def weak_expired_def)
  have w2: "weak_arcs s u = Some blk \<and> weak_arcs s v = Some None \<and> v \<noteq> u \<longrightarrow>
      (\<exists>s'. weak_move_assign v u s = Inr s'
          \<and> s' = s\<lparr>weak_arcs := (weak_arcs s)(u \<mapsto> None, v \<mapsto> blk)\<rparr>
          \<and> blocks s' = blocks s \<and> trace s' = trace s \<and> weak_arcs s' v = Some blk
          \<and> weak_use_count u s' = Inr 0 \<and> weak_expired u s' = Inr True)"
    by (auto simp: weak_move_assign_def weak_use_count_def weak_expired_def)
  have w3: "weak_arcs s u = Some blk \<and> weak_arcs s v = Some mine \<and> v \<noteq> u \<longrightarrow>
      weak_move_assign v u s =
        (case weak_dtor v s of Inl e \<Rightarrow> Inl e | Inr s1 \<Rightarrow> weak_move v u s1)"
  proof (intro impI, elim conjE)
    assume h: "weak_arcs s u = Some blk" "weak_arcs s v = Some mine" "v \<noteq> u"
    show "weak_move_assign v u s =
        (case weak_dtor v s of Inl e \<Rightarrow> Inl e | Inr s1 \<Rightarrow> weak_move v u s1)"
    proof (cases "case mine of None \<Rightarrow> Inr s | Some p \<Rightarrow> release_weak_ref p s")
      case (Inl e)
      then show ?thesis using h by (simp add: weak_move_assign_def weak_dtor_def)
    next
      case (Inr s1)
      have f: "weak_arcs s1 = weak_arcs s" using weak_reset_frame [OF Inr] by simp
      have tw: "(weak_arcs s)(v := None, u \<mapsto> None, v \<mapsto> blk)
              = (weak_arcs s)(u \<mapsto> None, v \<mapsto> blk)"
        using h(3) by (auto simp: fun_eq_iff)
      show ?thesis using h Inr f tw
        by (simp add: weak_move_assign_def weak_dtor_def weak_move_def)
    qed
  qed
  have w4: "weak_arcs s u = Some blk \<and> weak_arcs s v = Some (Some q) \<and> v \<noteq> u
      \<and> blocks s q = Some b \<and> cb_weak_count b \<noteq> 1 \<longrightarrow>
      (\<exists>s'. weak_move_assign v u s = Inr s'
          \<and> s' = s\<lparr>blocks := (blocks s)(q \<mapsto> b\<lparr>cb_weak_count := cb_weak_count b - 1\<rparr>),
                   weak_arcs := (weak_arcs s)(u \<mapsto> None, v \<mapsto> blk)\<rparr>
          \<and> trace s' = trace s \<and> weak_arcs s' v = Some blk
          \<and> weak_use_count u s' = Inr 0 \<and> weak_expired u s' = Inr True)"
    by (auto simp: weak_move_assign_def release_weak_ref_def weak_use_count_def
                   weak_expired_def)
  have w5: "weak_arcs s v = Some mine \<longrightarrow> weak_move_assign v v s = Inr s"
    by (simp add: weak_move_assign_def)
  show ?thesis by (intro conjI m1 m2 m3 m4 m5 w1 w2 w3 w4 w5)
qed

lemma move_spec_array:
  "(arr_arcs t u = Some blk \<and> arr_arcs t v = None \<longrightarrow>
      (\<exists>t'. arr_arc_move v u t = Inr t' \<and> t' = t\<lparr>arr_arcs := (arr_arcs t)(u \<mapsto> None, v \<mapsto> blk)\<rparr>
          \<and> arr_blocks t' = arr_blocks t \<and> arr_trace t' = arr_trace t \<and> arr_arcs t' v = Some blk
          \<and> arr_arc_bool u t' = Inr False \<and> arr_arc_use_count u t' = Inr 0))
 \<and> (arr_arcs t u = Some blk \<and> arr_arcs t v = Some None \<and> v \<noteq> u \<longrightarrow>
      (\<exists>t'. arr_arc_move_assign v u t = Inr t'
          \<and> t' = t\<lparr>arr_arcs := (arr_arcs t)(u \<mapsto> None, v \<mapsto> blk)\<rparr>
          \<and> arr_blocks t' = arr_blocks t \<and> arr_trace t' = arr_trace t \<and> arr_arcs t' v = Some blk
          \<and> arr_arc_bool u t' = Inr False \<and> arr_arc_use_count u t' = Inr 0))
 \<and> (arr_arcs t u = Some blk \<and> arr_arcs t v = Some mine \<and> v \<noteq> u \<longrightarrow>
      arr_arc_move_assign v u t =
        (case arr_arc_dtor v t of Inl e \<Rightarrow> Inl e | Inr t1 \<Rightarrow> arr_arc_move v u t1))
 \<and> (arr_arcs t u = Some blk \<and> arr_arcs t v = Some (Some q) \<and> v \<noteq> u
      \<and> arr_blocks t q = Some ab \<and> acb_ref_count ab \<noteq> 1 \<longrightarrow>
      (\<exists>t'. arr_arc_move_assign v u t = Inr t'
          \<and> t' = t\<lparr>arr_blocks := (arr_blocks t)(q \<mapsto> ab\<lparr>acb_ref_count := acb_ref_count ab - 1\<rparr>),
                   arr_arcs := (arr_arcs t)(u \<mapsto> None, v \<mapsto> blk)\<rparr>
          \<and> arr_trace t' = arr_trace t \<and> arr_arcs t' v = Some blk
          \<and> arr_arc_bool u t' = Inr False \<and> arr_arc_use_count u t' = Inr 0))
 \<and> (arr_arcs t v = Some mine \<longrightarrow> arr_arc_move_assign v v t = Inr t)
 \<and> (arr_weak_arcs t u = Some blk \<and> arr_weak_arcs t v = None \<longrightarrow>
      (\<exists>t'. arr_weak_move v u t = Inr t'
          \<and> t' = t\<lparr>arr_weak_arcs := (arr_weak_arcs t)(u \<mapsto> None, v \<mapsto> blk)\<rparr>
          \<and> arr_blocks t' = arr_blocks t \<and> arr_trace t' = arr_trace t \<and> arr_weak_arcs t' v = Some blk
          \<and> arr_weak_use_count u t' = Inr 0 \<and> arr_weak_expired u t' = Inr True))
 \<and> (arr_weak_arcs t u = Some blk \<and> arr_weak_arcs t v = Some None \<and> v \<noteq> u \<longrightarrow>
      (\<exists>t'. arr_weak_move_assign v u t = Inr t'
          \<and> t' = t\<lparr>arr_weak_arcs := (arr_weak_arcs t)(u \<mapsto> None, v \<mapsto> blk)\<rparr>
          \<and> arr_blocks t' = arr_blocks t \<and> arr_trace t' = arr_trace t \<and> arr_weak_arcs t' v = Some blk
          \<and> arr_weak_use_count u t' = Inr 0 \<and> arr_weak_expired u t' = Inr True))
 \<and> (arr_weak_arcs t u = Some blk \<and> arr_weak_arcs t v = Some mine \<and> v \<noteq> u \<longrightarrow>
      arr_weak_move_assign v u t =
        (case arr_weak_dtor v t of Inl e \<Rightarrow> Inl e | Inr t1 \<Rightarrow> arr_weak_move v u t1))
 \<and> (arr_weak_arcs t u = Some blk \<and> arr_weak_arcs t v = Some (Some q) \<and> v \<noteq> u
      \<and> arr_blocks t q = Some ab \<and> acb_weak_count ab \<noteq> 1 \<longrightarrow>
      (\<exists>t'. arr_weak_move_assign v u t = Inr t'
          \<and> t' = t\<lparr>arr_blocks := (arr_blocks t)(q \<mapsto> ab\<lparr>acb_weak_count := acb_weak_count ab - 1\<rparr>),
                   arr_weak_arcs := (arr_weak_arcs t)(u \<mapsto> None, v \<mapsto> blk)\<rparr>
          \<and> arr_trace t' = arr_trace t \<and> arr_weak_arcs t' v = Some blk
          \<and> arr_weak_use_count u t' = Inr 0 \<and> arr_weak_expired u t' = Inr True))
 \<and> (arr_weak_arcs t v = Some mine \<longrightarrow> arr_weak_move_assign v v t = Inr t)"
proof -
  have m1: "arr_arcs t u = Some blk \<and> arr_arcs t v = None \<longrightarrow>
      (\<exists>t'. arr_arc_move v u t = Inr t' \<and> t' = t\<lparr>arr_arcs := (arr_arcs t)(u \<mapsto> None, v \<mapsto> blk)\<rparr>
          \<and> arr_blocks t' = arr_blocks t \<and> arr_trace t' = arr_trace t \<and> arr_arcs t' v = Some blk
          \<and> arr_arc_bool u t' = Inr False \<and> arr_arc_use_count u t' = Inr 0)"
    by (auto simp: arr_arc_move_def arr_arc_bool_def arr_arc_use_count_def)
  have m2: "arr_arcs t u = Some blk \<and> arr_arcs t v = Some None \<and> v \<noteq> u \<longrightarrow>
      (\<exists>t'. arr_arc_move_assign v u t = Inr t'
          \<and> t' = t\<lparr>arr_arcs := (arr_arcs t)(u \<mapsto> None, v \<mapsto> blk)\<rparr>
          \<and> arr_blocks t' = arr_blocks t \<and> arr_trace t' = arr_trace t \<and> arr_arcs t' v = Some blk
          \<and> arr_arc_bool u t' = Inr False \<and> arr_arc_use_count u t' = Inr 0)"
    by (auto simp: arr_arc_move_assign_def arr_arc_bool_def arr_arc_use_count_def)
  have m3: "arr_arcs t u = Some blk \<and> arr_arcs t v = Some mine \<and> v \<noteq> u \<longrightarrow>
      arr_arc_move_assign v u t =
        (case arr_arc_dtor v t of Inl e \<Rightarrow> Inl e | Inr t1 \<Rightarrow> arr_arc_move v u t1)"
  proof (intro impI, elim conjE)
    assume h: "arr_arcs t u = Some blk" "arr_arcs t v = Some mine" "v \<noteq> u"
    show "arr_arc_move_assign v u t =
        (case arr_arc_dtor v t of Inl e \<Rightarrow> Inl e | Inr t1 \<Rightarrow> arr_arc_move v u t1)"
    proof (cases "case mine of None \<Rightarrow> Inr t | Some p \<Rightarrow> arr_release_ref p t")
      case (Inl e)
      then show ?thesis using h by (simp add: arr_arc_move_assign_def arr_arc_dtor_def)
    next
      case (Inr t1)
      have f: "arr_arcs t1 = arr_arcs t" using arr_reset_frame [OF Inr] by simp
      have tw: "(arr_arcs t)(v := None, u \<mapsto> None, v \<mapsto> blk) = (arr_arcs t)(u \<mapsto> None, v \<mapsto> blk)"
        using h(3) by (auto simp: fun_eq_iff)
      show ?thesis using h Inr f tw
        by (simp add: arr_arc_move_assign_def arr_arc_dtor_def arr_arc_move_def)
    qed
  qed
  have m4: "arr_arcs t u = Some blk \<and> arr_arcs t v = Some (Some q) \<and> v \<noteq> u
      \<and> arr_blocks t q = Some ab \<and> acb_ref_count ab \<noteq> 1 \<longrightarrow>
      (\<exists>t'. arr_arc_move_assign v u t = Inr t'
          \<and> t' = t\<lparr>arr_blocks := (arr_blocks t)(q \<mapsto> ab\<lparr>acb_ref_count := acb_ref_count ab - 1\<rparr>),
                   arr_arcs := (arr_arcs t)(u \<mapsto> None, v \<mapsto> blk)\<rparr>
          \<and> arr_trace t' = arr_trace t \<and> arr_arcs t' v = Some blk
          \<and> arr_arc_bool u t' = Inr False \<and> arr_arc_use_count u t' = Inr 0)"
    by (auto simp: arr_arc_move_assign_def arr_release_ref_def arr_arc_bool_def arr_arc_use_count_def)
  have m5: "arr_arcs t v = Some mine \<longrightarrow> arr_arc_move_assign v v t = Inr t"
    by (simp add: arr_arc_move_assign_def)
  have w1: "arr_weak_arcs t u = Some blk \<and> arr_weak_arcs t v = None \<longrightarrow>
      (\<exists>t'. arr_weak_move v u t = Inr t'
          \<and> t' = t\<lparr>arr_weak_arcs := (arr_weak_arcs t)(u \<mapsto> None, v \<mapsto> blk)\<rparr>
          \<and> arr_blocks t' = arr_blocks t \<and> arr_trace t' = arr_trace t \<and> arr_weak_arcs t' v = Some blk
          \<and> arr_weak_use_count u t' = Inr 0 \<and> arr_weak_expired u t' = Inr True)"
    by (auto simp: arr_weak_move_def arr_weak_use_count_def arr_weak_expired_def)
  have w2: "arr_weak_arcs t u = Some blk \<and> arr_weak_arcs t v = Some None \<and> v \<noteq> u \<longrightarrow>
      (\<exists>t'. arr_weak_move_assign v u t = Inr t'
          \<and> t' = t\<lparr>arr_weak_arcs := (arr_weak_arcs t)(u \<mapsto> None, v \<mapsto> blk)\<rparr>
          \<and> arr_blocks t' = arr_blocks t \<and> arr_trace t' = arr_trace t \<and> arr_weak_arcs t' v = Some blk
          \<and> arr_weak_use_count u t' = Inr 0 \<and> arr_weak_expired u t' = Inr True)"
    by (auto simp: arr_weak_move_assign_def arr_weak_use_count_def arr_weak_expired_def)
  have w3: "arr_weak_arcs t u = Some blk \<and> arr_weak_arcs t v = Some mine \<and> v \<noteq> u \<longrightarrow>
      arr_weak_move_assign v u t =
        (case arr_weak_dtor v t of Inl e \<Rightarrow> Inl e | Inr t1 \<Rightarrow> arr_weak_move v u t1)"
  proof (intro impI, elim conjE)
    assume h: "arr_weak_arcs t u = Some blk" "arr_weak_arcs t v = Some mine" "v \<noteq> u"
    show "arr_weak_move_assign v u t =
        (case arr_weak_dtor v t of Inl e \<Rightarrow> Inl e | Inr t1 \<Rightarrow> arr_weak_move v u t1)"
    proof (cases "case mine of None \<Rightarrow> Inr t | Some p \<Rightarrow> arr_release_weak_ref p t")
      case (Inl e)
      then show ?thesis using h by (simp add: arr_weak_move_assign_def arr_weak_dtor_def)
    next
      case (Inr t1)
      have f: "arr_weak_arcs t1 = arr_weak_arcs t" using arr_weak_reset_frame [OF Inr] by simp
      have tw: "(arr_weak_arcs t)(v := None, u \<mapsto> None, v \<mapsto> blk)
              = (arr_weak_arcs t)(u \<mapsto> None, v \<mapsto> blk)"
        using h(3) by (auto simp: fun_eq_iff)
      show ?thesis using h Inr f tw
        by (simp add: arr_weak_move_assign_def arr_weak_dtor_def arr_weak_move_def)
    qed
  qed
  have w4: "arr_weak_arcs t u = Some blk \<and> arr_weak_arcs t v = Some (Some q) \<and> v \<noteq> u
      \<and> arr_blocks t q = Some ab \<and> acb_weak_count ab \<noteq> 1 \<longrightarrow>
      (\<exists>t'. arr_weak_move_assign v u t = Inr t'
          \<and> t' = t\<lparr>arr_blocks := (arr_blocks t)(q \<mapsto> ab\<lparr>acb_weak_count := acb_weak_count ab - 1\<rparr>),
                   arr_weak_arcs := (arr_weak_arcs t)(u \<mapsto> None, v \<mapsto> blk)\<rparr>
          \<and> arr_trace t' = arr_trace t \<and> arr_weak_arcs t' v = Some blk
          \<and> arr_weak_use_count u t' = Inr 0 \<and> arr_weak_expired u t' = Inr True)"
    by (auto simp: arr_weak_move_assign_def arr_release_weak_ref_def arr_weak_use_count_def
                   arr_weak_expired_def)
  have w5: "arr_weak_arcs t v = Some mine \<longrightarrow> arr_weak_move_assign v v t = Inr t"
    by (simp add: arr_weak_move_assign_def)
  show ?thesis by (intro conjI m1 m2 m3 m4 m5 w1 w2 w3 w4 w5)
qed

text \<open>
  Claim C9, amended. In both variants, for strong handles and likewise for weak handles:
  move construction, and move assignment onto a different handle that is null, store the
  source's block pointer in the target and \<^verbatim>\<open>nullptr\<close> in the source and change
  nothing else, so no count changes and nothing is deallocated; afterwards the source is
  boolean-false with \<^verbatim>\<open>use_count()\<close> 0 (for a weak source: \<^verbatim>\<open>use_count()\<close> 0 and
  \<^verbatim>\<open>expired()\<close>). Move assignment onto a different handle \<open>v\<close> is the destructor of
  \<open>v\<close> followed by the move construction of \<open>v\<close> from the source: when \<open>v\<close> holds a
  block, that block is released first, which is one decrement of its strong count (for a
  weak handle, of its weak count) when that count is not 1, and otherwise what the
  destructor of the last handle does. Move assignment of a handle to itself changes
  nothing, so the handle keeps its block.
\<close>

theorem move_transfers_after_releasing_target:
  "((arcs s u = Some blk \<and> arcs s v = None \<longrightarrow>
      (\<exists>s'. arc_move v u s = Inr s' \<and> s' = s\<lparr>arcs := (arcs s)(u \<mapsto> None, v \<mapsto> blk)\<rparr>
          \<and> blocks s' = blocks s \<and> trace s' = trace s \<and> arcs s' v = Some blk
          \<and> arc_bool u s' = Inr False \<and> arc_use_count u s' = Inr 0))
 \<and> (arcs s u = Some blk \<and> arcs s v = Some None \<and> v \<noteq> u \<longrightarrow>
      (\<exists>s'. arc_move_assign v u s = Inr s'
          \<and> s' = s\<lparr>arcs := (arcs s)(u \<mapsto> None, v \<mapsto> blk)\<rparr>
          \<and> blocks s' = blocks s \<and> trace s' = trace s \<and> arcs s' v = Some blk
          \<and> arc_bool u s' = Inr False \<and> arc_use_count u s' = Inr 0))
 \<and> (arcs s u = Some blk \<and> arcs s v = Some mine \<and> v \<noteq> u \<longrightarrow>
      arc_move_assign v u s =
        (case arc_dtor v s of Inl e \<Rightarrow> Inl e | Inr s1 \<Rightarrow> arc_move v u s1))
 \<and> (arcs s u = Some blk \<and> arcs s v = Some (Some q) \<and> v \<noteq> u
      \<and> blocks s q = Some b \<and> cb_ref_count b \<noteq> 1 \<longrightarrow>
      (\<exists>s'. arc_move_assign v u s = Inr s'
          \<and> s' = s\<lparr>blocks := (blocks s)(q \<mapsto> b\<lparr>cb_ref_count := cb_ref_count b - 1\<rparr>),
                   arcs := (arcs s)(u \<mapsto> None, v \<mapsto> blk)\<rparr>
          \<and> trace s' = trace s \<and> arcs s' v = Some blk
          \<and> arc_bool u s' = Inr False \<and> arc_use_count u s' = Inr 0))
 \<and> (arcs s v = Some mine \<longrightarrow> arc_move_assign v v s = Inr s)
 \<and> (weak_arcs s u = Some blk \<and> weak_arcs s v = None \<longrightarrow>
      (\<exists>s'. weak_move v u s = Inr s'
          \<and> s' = s\<lparr>weak_arcs := (weak_arcs s)(u \<mapsto> None, v \<mapsto> blk)\<rparr>
          \<and> blocks s' = blocks s \<and> trace s' = trace s \<and> weak_arcs s' v = Some blk
          \<and> weak_use_count u s' = Inr 0 \<and> weak_expired u s' = Inr True))
 \<and> (weak_arcs s u = Some blk \<and> weak_arcs s v = Some None \<and> v \<noteq> u \<longrightarrow>
      (\<exists>s'. weak_move_assign v u s = Inr s'
          \<and> s' = s\<lparr>weak_arcs := (weak_arcs s)(u \<mapsto> None, v \<mapsto> blk)\<rparr>
          \<and> blocks s' = blocks s \<and> trace s' = trace s \<and> weak_arcs s' v = Some blk
          \<and> weak_use_count u s' = Inr 0 \<and> weak_expired u s' = Inr True))
 \<and> (weak_arcs s u = Some blk \<and> weak_arcs s v = Some mine \<and> v \<noteq> u \<longrightarrow>
      weak_move_assign v u s =
        (case weak_dtor v s of Inl e \<Rightarrow> Inl e | Inr s1 \<Rightarrow> weak_move v u s1))
 \<and> (weak_arcs s u = Some blk \<and> weak_arcs s v = Some (Some q) \<and> v \<noteq> u
      \<and> blocks s q = Some b \<and> cb_weak_count b \<noteq> 1 \<longrightarrow>
      (\<exists>s'. weak_move_assign v u s = Inr s'
          \<and> s' = s\<lparr>blocks := (blocks s)(q \<mapsto> b\<lparr>cb_weak_count := cb_weak_count b - 1\<rparr>),
                   weak_arcs := (weak_arcs s)(u \<mapsto> None, v \<mapsto> blk)\<rparr>
          \<and> trace s' = trace s \<and> weak_arcs s' v = Some blk
          \<and> weak_use_count u s' = Inr 0 \<and> weak_expired u s' = Inr True))
 \<and> (weak_arcs s v = Some mine \<longrightarrow> weak_move_assign v v s = Inr s))
 \<and> ((arr_arcs t u = Some blk \<and> arr_arcs t v = None \<longrightarrow>
      (\<exists>t'. arr_arc_move v u t = Inr t' \<and> t' = t\<lparr>arr_arcs := (arr_arcs t)(u \<mapsto> None, v \<mapsto> blk)\<rparr>
          \<and> arr_blocks t' = arr_blocks t \<and> arr_trace t' = arr_trace t \<and> arr_arcs t' v = Some blk
          \<and> arr_arc_bool u t' = Inr False \<and> arr_arc_use_count u t' = Inr 0))
 \<and> (arr_arcs t u = Some blk \<and> arr_arcs t v = Some None \<and> v \<noteq> u \<longrightarrow>
      (\<exists>t'. arr_arc_move_assign v u t = Inr t'
          \<and> t' = t\<lparr>arr_arcs := (arr_arcs t)(u \<mapsto> None, v \<mapsto> blk)\<rparr>
          \<and> arr_blocks t' = arr_blocks t \<and> arr_trace t' = arr_trace t \<and> arr_arcs t' v = Some blk
          \<and> arr_arc_bool u t' = Inr False \<and> arr_arc_use_count u t' = Inr 0))
 \<and> (arr_arcs t u = Some blk \<and> arr_arcs t v = Some mine \<and> v \<noteq> u \<longrightarrow>
      arr_arc_move_assign v u t =
        (case arr_arc_dtor v t of Inl e \<Rightarrow> Inl e | Inr t1 \<Rightarrow> arr_arc_move v u t1))
 \<and> (arr_arcs t u = Some blk \<and> arr_arcs t v = Some (Some q) \<and> v \<noteq> u
      \<and> arr_blocks t q = Some ab \<and> acb_ref_count ab \<noteq> 1 \<longrightarrow>
      (\<exists>t'. arr_arc_move_assign v u t = Inr t'
          \<and> t' = t\<lparr>arr_blocks := (arr_blocks t)(q \<mapsto> ab\<lparr>acb_ref_count := acb_ref_count ab - 1\<rparr>),
                   arr_arcs := (arr_arcs t)(u \<mapsto> None, v \<mapsto> blk)\<rparr>
          \<and> arr_trace t' = arr_trace t \<and> arr_arcs t' v = Some blk
          \<and> arr_arc_bool u t' = Inr False \<and> arr_arc_use_count u t' = Inr 0))
 \<and> (arr_arcs t v = Some mine \<longrightarrow> arr_arc_move_assign v v t = Inr t)
 \<and> (arr_weak_arcs t u = Some blk \<and> arr_weak_arcs t v = None \<longrightarrow>
      (\<exists>t'. arr_weak_move v u t = Inr t'
          \<and> t' = t\<lparr>arr_weak_arcs := (arr_weak_arcs t)(u \<mapsto> None, v \<mapsto> blk)\<rparr>
          \<and> arr_blocks t' = arr_blocks t \<and> arr_trace t' = arr_trace t \<and> arr_weak_arcs t' v = Some blk
          \<and> arr_weak_use_count u t' = Inr 0 \<and> arr_weak_expired u t' = Inr True))
 \<and> (arr_weak_arcs t u = Some blk \<and> arr_weak_arcs t v = Some None \<and> v \<noteq> u \<longrightarrow>
      (\<exists>t'. arr_weak_move_assign v u t = Inr t'
          \<and> t' = t\<lparr>arr_weak_arcs := (arr_weak_arcs t)(u \<mapsto> None, v \<mapsto> blk)\<rparr>
          \<and> arr_blocks t' = arr_blocks t \<and> arr_trace t' = arr_trace t \<and> arr_weak_arcs t' v = Some blk
          \<and> arr_weak_use_count u t' = Inr 0 \<and> arr_weak_expired u t' = Inr True))
 \<and> (arr_weak_arcs t u = Some blk \<and> arr_weak_arcs t v = Some mine \<and> v \<noteq> u \<longrightarrow>
      arr_weak_move_assign v u t =
        (case arr_weak_dtor v t of Inl e \<Rightarrow> Inl e | Inr t1 \<Rightarrow> arr_weak_move v u t1))
 \<and> (arr_weak_arcs t u = Some blk \<and> arr_weak_arcs t v = Some (Some q) \<and> v \<noteq> u
      \<and> arr_blocks t q = Some ab \<and> acb_weak_count ab \<noteq> 1 \<longrightarrow>
      (\<exists>t'. arr_weak_move_assign v u t = Inr t'
          \<and> t' = t\<lparr>arr_blocks := (arr_blocks t)(q \<mapsto> ab\<lparr>acb_weak_count := acb_weak_count ab - 1\<rparr>),
                   arr_weak_arcs := (arr_weak_arcs t)(u \<mapsto> None, v \<mapsto> blk)\<rparr>
          \<and> arr_trace t' = arr_trace t \<and> arr_weak_arcs t' v = Some blk
          \<and> arr_weak_use_count u t' = Inr 0 \<and> arr_weak_expired u t' = Inr True))
 \<and> (arr_weak_arcs t v = Some mine \<longrightarrow> arr_weak_move_assign v v t = Inr t))"
  by (rule conjI [OF move_spec_single move_spec_array])

theorem move_transfers_after_releasing_target_witness:
  "(\<exists>(s::unit state) b.
       run [ArcMake 0 (), ArcCopy 4 0, ArcDefault 2, WeakFromArc 0 0, WeakCopy 4 0,
            WeakDefault 2] init = Inr s
     \<and> blocks s 0 = Some b \<and> cb_ref_count b = 2 \<and> cb_weak_count b = 3
     \<and> arc_move 3 4 s = Inr (s\<lparr>arcs := (arcs s)(4 \<mapsto> None, 3 \<mapsto> Some 0)\<rparr>)
     \<and> arc_move_assign 2 4 s = Inr (s\<lparr>arcs := (arcs s)(4 \<mapsto> None, 2 \<mapsto> Some 0)\<rparr>)
     \<and> arc_move_assign 0 4 s =
         (case arc_dtor 0 s of Inl e \<Rightarrow> Inl e | Inr s1 \<Rightarrow> arc_move 0 4 s1)
     \<and> arc_move_assign 0 4 s =
         Inr (s\<lparr>blocks := (blocks s)(0 \<mapsto> b\<lparr>cb_ref_count := 1\<rparr>),
                arcs := (arcs s)(4 \<mapsto> None, 0 \<mapsto> Some 0)\<rparr>)
     \<and> arc_move_assign 0 0 s = Inr s
     \<and> weak_move 3 4 s = Inr (s\<lparr>weak_arcs := (weak_arcs s)(4 \<mapsto> None, 3 \<mapsto> Some 0)\<rparr>)
     \<and> weak_move_assign 2 4 s =
         Inr (s\<lparr>weak_arcs := (weak_arcs s)(4 \<mapsto> None, 2 \<mapsto> Some 0)\<rparr>)
     \<and> weak_move_assign 0 4 s =
         (case weak_dtor 0 s of Inl e \<Rightarrow> Inl e | Inr s1 \<Rightarrow> weak_move 0 4 s1)
     \<and> weak_move_assign 0 4 s =
         Inr (s\<lparr>blocks := (blocks s)(0 \<mapsto> b\<lparr>cb_weak_count := 2\<rparr>),
                weak_arcs := (weak_arcs s)(4 \<mapsto> None, 0 \<mapsto> Some 0)\<rparr>)
     \<and> weak_move_assign 0 0 s = Inr s)
 \<and> (\<exists>(t::unit array_state) b.
       arr_run [ArrArcMake 0 3 (), ArrArcCopy 4 0, ArrArcDefault 2, ArrWeakFromArc 0 0,
                ArrWeakCopy 4 0, ArrWeakDefault 2] arr_init = Inr t
     \<and> arr_blocks t 0 = Some b \<and> acb_ref_count b = 2 \<and> acb_weak_count b = 3
     \<and> arr_arc_move 3 4 t = Inr (t\<lparr>arr_arcs := (arr_arcs t)(4 \<mapsto> None, 3 \<mapsto> Some 0)\<rparr>)
     \<and> arr_arc_move_assign 2 4 t =
         Inr (t\<lparr>arr_arcs := (arr_arcs t)(4 \<mapsto> None, 2 \<mapsto> Some 0)\<rparr>)
     \<and> arr_arc_move_assign 0 4 t =
         (case arr_arc_dtor 0 t of Inl e \<Rightarrow> Inl e | Inr t1 \<Rightarrow> arr_arc_move 0 4 t1)
     \<and> arr_arc_move_assign 0 4 t =
         Inr (t\<lparr>arr_blocks := (arr_blocks t)(0 \<mapsto> b\<lparr>acb_ref_count := 1\<rparr>),
                arr_arcs := (arr_arcs t)(4 \<mapsto> None, 0 \<mapsto> Some 0)\<rparr>)
     \<and> arr_arc_move_assign 0 0 t = Inr t
     \<and> arr_weak_move 3 4 t =
         Inr (t\<lparr>arr_weak_arcs := (arr_weak_arcs t)(4 \<mapsto> None, 3 \<mapsto> Some 0)\<rparr>)
     \<and> arr_weak_move_assign 2 4 t =
         Inr (t\<lparr>arr_weak_arcs := (arr_weak_arcs t)(4 \<mapsto> None, 2 \<mapsto> Some 0)\<rparr>)
     \<and> arr_weak_move_assign 0 4 t =
         (case arr_weak_dtor 0 t of Inl e \<Rightarrow> Inl e | Inr t1 \<Rightarrow> arr_weak_move 0 4 t1)
     \<and> arr_weak_move_assign 0 4 t =
         Inr (t\<lparr>arr_blocks := (arr_blocks t)(0 \<mapsto> b\<lparr>acb_weak_count := 2\<rparr>),
                arr_weak_arcs := (arr_weak_arcs t)(4 \<mapsto> None, 0 \<mapsto> Some 0)\<rparr>)
     \<and> arr_weak_move_assign 0 0 t = Inr t)"
proof -
  obtain s :: "unit state"
    where s: "run [ArcMake 0 (), ArcCopy 4 0, ArcDefault 2, WeakFromArc 0 0, WeakCopy 4 0,
                   WeakDefault 2] init = Inr s"
    by (simp add: op_defs)
  define b :: "unit control_block"
    where "b = \<lparr>cb_ref_count = 2, cb_weak_count = 3, cb_object = ()\<rparr>"
  have hs: "blocks s 0 = Some b" "cb_ref_count b = 2" "cb_weak_count b = 3"
      "arcs s 0 = Some (Some 0)" "arcs s 4 = Some (Some 0)" "arcs s 2 = Some None"
      "arcs s 3 = None" "weak_arcs s 0 = Some (Some 0)" "weak_arcs s 4 = Some (Some 0)"
      "weak_arcs s 2 = Some None" "weak_arcs s 3 = None"
    using s by (auto simp: op_defs b_def)
  obtain t :: "unit array_state"
    where t: "arr_run [ArrArcMake 0 3 (), ArrArcCopy 4 0, ArrArcDefault 2, ArrWeakFromArc 0 0,
                       ArrWeakCopy 4 0, ArrWeakDefault 2] arr_init = Inr t"
    by (simp add: arr_op_defs)
  define ab :: array_control_block
    where "ab = \<lparr>acb_ref_count = 2, acb_weak_count = 3, acb_data = Some (Suc 0), acb_size = 3\<rparr>"
  have ht: "arr_blocks t 0 = Some ab" "acb_ref_count ab = 2"
      "acb_weak_count ab = 3"
      "arr_arcs t 0 = Some (Some 0)" "arr_arcs t 4 = Some (Some 0)" "arr_arcs t 2 = Some None"
      "arr_arcs t 3 = None" "arr_weak_arcs t 0 = Some (Some 0)"
      "arr_weak_arcs t 4 = Some (Some 0)" "arr_weak_arcs t 2 = Some None"
      "arr_weak_arcs t 3 = None"
    using t by (auto simp: arr_op_defs ab_def)
  note construct = move_transfers_after_releasing_target
      [of s 4 "Some 0" 3 "Some 0" 0 b t ab]
  note onto_null = move_transfers_after_releasing_target
      [of s 4 "Some 0" 2 None 0 b t ab]
  note onto_owner = move_transfers_after_releasing_target
      [of s 4 "Some 0" 0 "Some 0" 0 b t ab]
  have a: "arc_move 3 4 s = Inr (s\<lparr>arcs := (arcs s)(4 \<mapsto> None, 3 \<mapsto> Some 0)\<rparr>)"
    "weak_move 3 4 s = Inr (s\<lparr>weak_arcs := (weak_arcs s)(4 \<mapsto> None, 3 \<mapsto> Some 0)\<rparr>)"
    "arr_arc_move 3 4 t = Inr (t\<lparr>arr_arcs := (arr_arcs t)(4 \<mapsto> None, 3 \<mapsto> Some 0)\<rparr>)"
    "arr_weak_move 3 4 t =
       Inr (t\<lparr>arr_weak_arcs := (arr_weak_arcs t)(4 \<mapsto> None, 3 \<mapsto> Some 0)\<rparr>)"
    using construct hs ht by simp_all
  have c: "arc_move_assign 2 4 s = Inr (s\<lparr>arcs := (arcs s)(4 \<mapsto> None, 2 \<mapsto> Some 0)\<rparr>)"
    "weak_move_assign 2 4 s =
       Inr (s\<lparr>weak_arcs := (weak_arcs s)(4 \<mapsto> None, 2 \<mapsto> Some 0)\<rparr>)"
    "arr_arc_move_assign 2 4 t =
       Inr (t\<lparr>arr_arcs := (arr_arcs t)(4 \<mapsto> None, 2 \<mapsto> Some 0)\<rparr>)"
    "arr_weak_move_assign 2 4 t =
       Inr (t\<lparr>arr_weak_arcs := (arr_weak_arcs t)(4 \<mapsto> None, 2 \<mapsto> Some 0)\<rparr>)"
    using onto_null hs ht by simp_all
  have ne: "(0::var) \<noteq> 4" by simp
  note s_dtor_then_move = conjunct1 [OF conjunct2 [OF conjunct2 [OF conjunct1 [OF onto_owner]]]]
  note s_decrement = conjunct1 [OF conjunct2 [OF conjunct2 [OF conjunct2 [OF conjunct1 [OF onto_owner]]]]]
  note s_self = conjunct1 [OF conjunct2 [OF conjunct2 [OF conjunct2 [OF conjunct2 [OF conjunct1 [OF onto_owner]]]]]]
  note sw_dtor_then_move = conjunct1 [OF conjunct2 [OF conjunct2 [OF conjunct2 [OF conjunct2 [OF conjunct2 [OF conjunct2 [OF conjunct2 [OF conjunct1 [OF onto_owner]]]]]]]]]
  note sw_decrement = conjunct1 [OF conjunct2 [OF conjunct2 [OF conjunct2 [OF conjunct2 [OF conjunct2 [OF conjunct2 [OF conjunct2 [OF conjunct2 [OF conjunct1 [OF onto_owner]]]]]]]]]]
  note sw_self = conjunct2 [OF conjunct2 [OF conjunct2 [OF conjunct2 [OF conjunct2 [OF conjunct2 [OF conjunct2 [OF conjunct2 [OF conjunct2 [OF conjunct1 [OF onto_owner]]]]]]]]]]
  note t_dtor_then_move = conjunct1 [OF conjunct2 [OF conjunct2 [OF conjunct2 [OF onto_owner]]]]
  note t_decrement = conjunct1 [OF conjunct2 [OF conjunct2 [OF conjunct2 [OF conjunct2 [OF onto_owner]]]]]
  note t_self = conjunct1 [OF conjunct2 [OF conjunct2 [OF conjunct2 [OF conjunct2 [OF conjunct2 [OF onto_owner]]]]]]
  note tw_dtor_then_move = conjunct1 [OF conjunct2 [OF conjunct2 [OF conjunct2 [OF conjunct2 [OF conjunct2 [OF conjunct2 [OF conjunct2 [OF conjunct2 [OF onto_owner]]]]]]]]]
  note tw_decrement = conjunct1 [OF conjunct2 [OF conjunct2 [OF conjunct2 [OF conjunct2 [OF conjunct2 [OF conjunct2 [OF conjunct2 [OF conjunct2 [OF conjunct2 [OF onto_owner]]]]]]]]]]
  note tw_self = conjunct2 [OF conjunct2 [OF conjunct2 [OF conjunct2 [OF conjunct2 [OF conjunct2 [OF conjunct2 [OF conjunct2 [OF conjunct2 [OF conjunct2 [OF onto_owner]]]]]]]]]]
  have d: "arc_move_assign 0 4 s =
       (case arc_dtor 0 s of Inl e \<Rightarrow> Inl e | Inr s1 \<Rightarrow> arc_move 0 4 s1)"
    using s_dtor_then_move hs ne by simp
  have dw: "weak_move_assign 0 4 s =
       (case weak_dtor 0 s of Inl e \<Rightarrow> Inl e | Inr s1 \<Rightarrow> weak_move 0 4 s1)"
    using sw_dtor_then_move hs ne by simp
  have e: "arc_move_assign 0 4 s =
       Inr (s\<lparr>blocks := (blocks s)(0 \<mapsto> b\<lparr>cb_ref_count := 1\<rparr>),
              arcs := (arcs s)(4 \<mapsto> None, 0 \<mapsto> Some 0)\<rparr>)"
    using s_decrement hs ne by simp
  have ew: "weak_move_assign 0 4 s =
       Inr (s\<lparr>blocks := (blocks s)(0 \<mapsto> b\<lparr>cb_weak_count := 2\<rparr>),
              weak_arcs := (weak_arcs s)(4 \<mapsto> None, 0 \<mapsto> Some 0)\<rparr>)"
    using sw_decrement hs ne by simp
  have f: "arc_move_assign 0 0 s = Inr s" "weak_move_assign 0 0 s = Inr s"
    using s_self sw_self hs by simp_all
  have d': "arr_arc_move_assign 0 4 t =
       (case arr_arc_dtor 0 t of Inl e \<Rightarrow> Inl e | Inr t1 \<Rightarrow> arr_arc_move 0 4 t1)"
    using t_dtor_then_move ht ne by simp
  have dw': "arr_weak_move_assign 0 4 t =
       (case arr_weak_dtor 0 t of Inl e \<Rightarrow> Inl e | Inr t1 \<Rightarrow> arr_weak_move 0 4 t1)"
    using tw_dtor_then_move ht ne by simp
  have e': "arr_arc_move_assign 0 4 t =
       Inr (t\<lparr>arr_blocks := (arr_blocks t)(0 \<mapsto> ab\<lparr>acb_ref_count := 1\<rparr>),
              arr_arcs := (arr_arcs t)(4 \<mapsto> None, 0 \<mapsto> Some 0)\<rparr>)"
    using t_decrement ht ne by simp
  have ew': "arr_weak_move_assign 0 4 t =
       Inr (t\<lparr>arr_blocks := (arr_blocks t)(0 \<mapsto> ab\<lparr>acb_weak_count := 2\<rparr>),
              arr_weak_arcs := (arr_weak_arcs t)(4 \<mapsto> None, 0 \<mapsto> Some 0)\<rparr>)"
    using tw_decrement ht ne by simp
  have f': "arr_arc_move_assign 0 0 t = Inr t" "arr_weak_move_assign 0 0 t = Inr t"
    using t_self tw_self ht by simp_all
  have single: "\<exists>(s::unit state) b.
       run [ArcMake 0 (), ArcCopy 4 0, ArcDefault 2, WeakFromArc 0 0, WeakCopy 4 0,
            WeakDefault 2] init = Inr s
     \<and> blocks s 0 = Some b \<and> cb_ref_count b = 2 \<and> cb_weak_count b = 3
     \<and> arc_move 3 4 s = Inr (s\<lparr>arcs := (arcs s)(4 \<mapsto> None, 3 \<mapsto> Some 0)\<rparr>)
     \<and> arc_move_assign 2 4 s = Inr (s\<lparr>arcs := (arcs s)(4 \<mapsto> None, 2 \<mapsto> Some 0)\<rparr>)
     \<and> arc_move_assign 0 4 s =
         (case arc_dtor 0 s of Inl e \<Rightarrow> Inl e | Inr s1 \<Rightarrow> arc_move 0 4 s1)
     \<and> arc_move_assign 0 4 s =
         Inr (s\<lparr>blocks := (blocks s)(0 \<mapsto> b\<lparr>cb_ref_count := 1\<rparr>),
                arcs := (arcs s)(4 \<mapsto> None, 0 \<mapsto> Some 0)\<rparr>)
     \<and> arc_move_assign 0 0 s = Inr s
     \<and> weak_move 3 4 s = Inr (s\<lparr>weak_arcs := (weak_arcs s)(4 \<mapsto> None, 3 \<mapsto> Some 0)\<rparr>)
     \<and> weak_move_assign 2 4 s =
         Inr (s\<lparr>weak_arcs := (weak_arcs s)(4 \<mapsto> None, 2 \<mapsto> Some 0)\<rparr>)
     \<and> weak_move_assign 0 4 s =
         (case weak_dtor 0 s of Inl e \<Rightarrow> Inl e | Inr s1 \<Rightarrow> weak_move 0 4 s1)
     \<and> weak_move_assign 0 4 s =
         Inr (s\<lparr>blocks := (blocks s)(0 \<mapsto> b\<lparr>cb_weak_count := 2\<rparr>),
                weak_arcs := (weak_arcs s)(4 \<mapsto> None, 0 \<mapsto> Some 0)\<rparr>)
     \<and> weak_move_assign 0 0 s = Inr s"
    by (rule exI [of _ s], rule exI [of _ b])
       (intro conjI s hs(1-3) a(1,2) c(1,2) d dw e ew f)
  have array: "\<exists>(t::unit array_state) b.
       arr_run [ArrArcMake 0 3 (), ArrArcCopy 4 0, ArrArcDefault 2, ArrWeakFromArc 0 0,
                ArrWeakCopy 4 0, ArrWeakDefault 2] arr_init = Inr t
     \<and> arr_blocks t 0 = Some b \<and> acb_ref_count b = 2 \<and> acb_weak_count b = 3
     \<and> arr_arc_move 3 4 t = Inr (t\<lparr>arr_arcs := (arr_arcs t)(4 \<mapsto> None, 3 \<mapsto> Some 0)\<rparr>)
     \<and> arr_arc_move_assign 2 4 t =
         Inr (t\<lparr>arr_arcs := (arr_arcs t)(4 \<mapsto> None, 2 \<mapsto> Some 0)\<rparr>)
     \<and> arr_arc_move_assign 0 4 t =
         (case arr_arc_dtor 0 t of Inl e \<Rightarrow> Inl e | Inr t1 \<Rightarrow> arr_arc_move 0 4 t1)
     \<and> arr_arc_move_assign 0 4 t =
         Inr (t\<lparr>arr_blocks := (arr_blocks t)(0 \<mapsto> b\<lparr>acb_ref_count := 1\<rparr>),
                arr_arcs := (arr_arcs t)(4 \<mapsto> None, 0 \<mapsto> Some 0)\<rparr>)
     \<and> arr_arc_move_assign 0 0 t = Inr t
     \<and> arr_weak_move 3 4 t =
         Inr (t\<lparr>arr_weak_arcs := (arr_weak_arcs t)(4 \<mapsto> None, 3 \<mapsto> Some 0)\<rparr>)
     \<and> arr_weak_move_assign 2 4 t =
         Inr (t\<lparr>arr_weak_arcs := (arr_weak_arcs t)(4 \<mapsto> None, 2 \<mapsto> Some 0)\<rparr>)
     \<and> arr_weak_move_assign 0 4 t =
         (case arr_weak_dtor 0 t of Inl e \<Rightarrow> Inl e | Inr t1 \<Rightarrow> arr_weak_move 0 4 t1)
     \<and> arr_weak_move_assign 0 4 t =
         Inr (t\<lparr>arr_blocks := (arr_blocks t)(0 \<mapsto> b\<lparr>acb_weak_count := 2\<rparr>),
                arr_weak_arcs := (arr_weak_arcs t)(4 \<mapsto> None, 0 \<mapsto> Some 0)\<rparr>)
     \<and> arr_weak_move_assign 0 0 t = Inr t"
    by (rule exI [of _ t], rule exI [of _ ab])
       (intro conjI t ht(1-3) a(3,4) c(3,4) d' dw' e' ew' f')
  show ?thesis by (rule conjI [OF single array])
qed

end
